(* ===== verification/Prelude.thy ===== *)
theory Prelude
  imports Complex_Main
begin

text \<open>
  Shared vocabulary of the DrumSampler development: the JavaScript errors the
  modelled code can raise, JavaScript array reads and writes (which answer
  \<open>undefined\<close> out of range and grow the array on an out-of-range write), the
  time type, and the generic list lemmas the component theories share.
  JavaScript numbers are modelled as \<open>real\<close> (exact arithmetic: IEEE rounding,
  \<open>Infinity\<close> and \<open>NaN\<close> are not modelled) and counters that the code only
  increments from 0 as \<open>nat\<close>.
\<close>

named_theorems js_simps "evaluation rules for the JavaScript array primitives"

text \<open>Errors thrown by the modelled code (\<open>throw\<close> of the engine or of the code).\<close>

datatype js_error =
    TypeError string
  | SyntaxError
  | Thrown string

text \<open>
  JavaScript code that throws after some effects: the value reached so far, and
  whether an exception escaped. Effects done before a \<open>throw\<close> are kept, as in
  the source.
\<close>

datatype 'a outcome = Normal 'a | Threw js_error 'a

primrec out_value :: "'a outcome \<Rightarrow> 'a" where
  "out_value (Normal x) = x"
| "out_value (Threw e x) = x"

text \<open>Two statements in sequence, each producing a list of effects.\<close>

fun seq_out :: "'a list outcome \<Rightarrow> 'a list outcome \<Rightarrow> 'a list outcome" where
  "seq_out (Normal xs) (Normal ys) = Normal (xs @ ys)"
| "seq_out (Normal xs) (Threw e ys) = Threw e (xs @ ys)"
| "seq_out (Threw e xs) _ = Threw e xs"

text \<open>Seconds on the audio clock (\<open>AudioContext.currentTime\<close>).\<close>

type_synonym seconds = real

text \<open>
  \<open>xs[i]\<close> in JavaScript: the element, or \<open>undefined\<close> (here \<open>None\<close>) out of range.
\<close>

definition js_get :: "'a list \<Rightarrow> nat \<Rightarrow> 'a option" where
  "js_get xs i = (if i < length xs then Some (xs ! i) else None)"

text \<open>
  \<open>xs[i] = v\<close> in JavaScript: in range an update; out of range the array grows to
  \<open>i + 1\<close> elements, the gap holding \<open>hole\<close> (JavaScript leaves \<open>undefined\<close> there).
\<close>

definition js_set :: "'a \<Rightarrow> 'a list \<Rightarrow> nat \<Rightarrow> 'a \<Rightarrow> 'a list" where
  "js_set hole xs i v =
     (if i < length xs then xs[i := v] else xs @ replicate (i - length xs) hole @ [v])"

text \<open>JavaScript truthiness of a number-valued slot: \<open>undefined\<close> and \<open>0\<close> are false.\<close>

definition js_truthy :: "nat option \<Rightarrow> bool" where
  "js_truthy v = (case v of None \<Rightarrow> False | Some n \<Rightarrow> n \<noteq> 0)"

subsection \<open>Array primitives\<close>

lemma js_get_Some_iff [js_simps]: "js_get xs i = Some v \<longleftrightarrow> i < length xs \<and> xs ! i = v"
  by (auto simp: js_get_def)

lemma js_get_None_iff [js_simps]: "js_get xs i = None \<longleftrightarrow> length xs \<le> i"
  by (auto simp: js_get_def)

lemma js_get_Cons_0 [simp]: "js_get (x # xs) 0 = Some x"
  by (simp add: js_get_def)

lemma js_get_Cons_Suc [simp]: "js_get (x # xs) (Suc i) = js_get xs i"
  by (simp add: js_get_def)

lemma js_get_numeral [simp]: "js_get (x # xs) (numeral n) = js_get xs (pred_numeral n)"
  by (simp add: numeral_eq_Suc)

lemma js_get_Nil [simp]: "js_get [] i = None"
  by (simp add: js_get_def)

lemma js_set_in_range [js_simps]: "i < length xs \<Longrightarrow> js_set h xs i v = xs[i := v]"
  by (simp add: js_set_def)

lemma length_js_set [simp]: "length (js_set h xs i v) = max (length xs) (Suc i)"
  by (simp add: js_set_def)

lemma js_get_js_set_same [simp]: "js_get (js_set h xs i v) i = Some v"
  by (simp add: js_get_def js_set_def nth_append)

lemma js_get_js_set_other [simp]:
  "j \<noteq> i \<Longrightarrow> j < length xs \<Longrightarrow> js_get (js_set h xs i v) j = js_get xs j"
  by (simp add: js_get_def js_set_def nth_append)

lemma nth_js_set_same [simp]: "js_set h xs i v ! i = v"
  by (simp add: js_set_def nth_append)

lemma nth_js_set_other [simp]: "j \<noteq> i \<Longrightarrow> j < length xs \<Longrightarrow> js_set h xs i v ! j = xs ! j"
  by (simp add: js_set_def nth_append)

lemma set_js_set_subset: "set (js_set h xs i v) \<subseteq> insert v (insert h (set xs))"
  by (auto simp: js_set_def dest: set_update_subset_insert [THEN subsetD])

lemma js_truthy_simps [simp]:
  "js_truthy None = False" "js_truthy (Some n) = (n \<noteq> 0)"
  by (simp_all add: js_truthy_def)

lemma out_value_map [simp]: "out_value (map_outcome f r) = f (out_value r)"
  by (cases r) simp_all

subsection \<open>Lists\<close>

lemma list_all_update [intro]: "list_all P xs \<Longrightarrow> P v \<Longrightarrow> list_all P (xs[i := v])"
  by (auto simp: list_all_iff dest: set_update_subset_insert [THEN subsetD])

lemma removeAll_single: "set xs \<subseteq> {x} \<Longrightarrow> removeAll x xs = []"
  by (induction xs) auto

lemma list_all_nth [intro]: "list_all P xs \<Longrightarrow> i < length xs \<Longrightarrow> P (xs ! i)"
  by (simp add: list_all_length)

end
