(* ===== verification/Pattern.thy ===== *)
theory Pattern
  imports Prelude
begin

text \<open>
  The Pattern Store of \<^verbatim>\<open>src/DrumSampler/main.js\<close>: the constants of the
  GLOBALS block (lines 41--123), the beat document (tempo, swing, kit, effect and
  six instruments with a pitch and a 16-step pattern each), its well-formedness
  invariant, and the in-place edit of one pattern cell done by
  \<open>Sampler.prototype.setNote\<close> (line 355), which the Scheduler theory applies to
  the object the sampler references.
\<close>

subsection \<open>The document\<close>

record instrument =
  pitch :: real
  pattern :: "nat list"

text \<open>The document's \<open>kit\<close> key is \<open>beat_kit\<close> here: \<open>kit\<close> is the sampler's field.\<close>

record beat =
  beat_kit :: "string option"
  tempo :: real
  effect :: "string option"
  effectMix :: real
  swingFactor :: real
  instruments :: "instrument list"

subsection \<open>GLOBALS\<close>

definition MIN_TEMPO :: real where "MIN_TEMPO = 50"
definition MAX_TEMPO :: real where "MAX_TEMPO = 180"
definition MAX_SWING :: real where "MAX_SWING = 0.08"
definition TRACKS :: nat where "TRACKS = 16"
definition INSTRUMENTS :: nat where "INSTRUMENTS = 6"
definition VOLUMES :: "real list" where "VOLUMES = [0, 0.3, 1]"

definition LABELS :: "string list" where
  "LABELS = [''Tom 1'', ''Tom 2'', ''Tom 3'', ''Hi-Hat'', ''Snare'', ''Kick'']"

lemmas globals_defs = MIN_TEMPO_def MAX_TEMPO_def MAX_SWING_def TRACKS_def
  INSTRUMENTS_def VOLUMES_def

definition NULL_BEAT :: beat where
  "NULL_BEAT =
    \<lparr>beat_kit = None, tempo = 120, effect = None, effectMix = 0.25, swingFactor = 0,
     instruments =
       [\<lparr>pitch = 0.5, pattern = [0,0,0,0,0,0,0,0,0,0,0,0,0,0,0,0]\<rparr>,
        \<lparr>pitch = 0.5, pattern = [0,0,0,0,0,0,0,0,0,0,0,0,0,0,0,0]\<rparr>,
        \<lparr>pitch = 0.5, pattern = [0,0,0,0,0,0,0,0,0,0,0,0,0,0,0,0]\<rparr>,
        \<lparr>pitch = 0.5, pattern = [0,0,0,0,0,0,0,0,0,0,0,0,0,0,0,0]\<rparr>,
        \<lparr>pitch = 0.5, pattern = [0,0,0,0,0,0,0,0,0,0,0,0,0,0,0,0]\<rparr>,
        \<lparr>pitch = 0.5, pattern = [0,0,0,0,0,0,0,0,0,0,0,0,0,0,0,0]\<rparr>]\<rparr>"

definition DEMO_BEAT :: beat where
  "DEMO_BEAT =
    \<lparr>beat_kit = None, tempo = 120, effect = None, effectMix = 0.25, swingFactor = 0,
     instruments =
       [\<lparr>pitch = 0.5, pattern = [0,0,0,0,0,0,0,2,0,2,2,0,0,0,0,0]\<rparr>,
        \<lparr>pitch = 0.5, pattern = [0,0,2,0,0,0,0,0,0,0,0,0,0,0,0,0]\<rparr>,
        \<lparr>pitch = 0.5, pattern = [0,0,0,0,0,0,0,0,0,0,0,0,0,0,2,0]\<rparr>,
        \<lparr>pitch = 0.5, pattern = [0,0,0,0,0,0,2,0,2,0,0,0,0,0,0,0]\<rparr>,
        \<lparr>pitch = 0.5, pattern = [0,0,0,0,2,0,0,0,0,0,0,0,2,0,0,0]\<rparr>,
        \<lparr>pitch = 0.5, pattern = [2,0,0,0,0,0,0,0,0,0,0,0,0,0,0,0]\<rparr>]\<rparr>"

subsection \<open>Well-formedness\<close>

text \<open>
  What the rest of the program relies on: six instruments, sixteen cells each,
  every cell an index of \<open>VOLUMES\<close>, tempo in its domain, swing in \<open>[0, 1]\<close>.
  No code checks it: the GUI only ever writes cells 0--2 at rows 0--5 and
  columns 0--15, and \<open>load\<close> takes any document.
\<close>

definition wf_instrument :: "instrument \<Rightarrow> bool" where
  "wf_instrument i \<longleftrightarrow> length (pattern i) = TRACKS \<and> list_all (\<lambda>v. v < length VOLUMES) (pattern i)"

definition wf_beat :: "beat \<Rightarrow> bool" where
  "wf_beat b \<longleftrightarrow>
     MIN_TEMPO \<le> tempo b \<and> tempo b \<le> MAX_TEMPO \<and> 0 \<le> swingFactor b \<and> swingFactor b \<le> 1
     \<and> length (instruments b) = INSTRUMENTS \<and> list_all wf_instrument (instruments b)"

subsection \<open>Editing one cell\<close>

text \<open>
  \<open>this.beat.instruments[row].pattern[col] = state\<close> (line 355): a row past the
  end reads \<open>undefined\<close> and the property access throws a \<open>TypeError\<close>; a column
  past the end grows the pattern array (the gap, \<open>undefined\<close> in JavaScript, is
  written as 0, the value it has for \<open>note\<close>, which only tests truthiness).
\<close>

definition setNote_beat :: "beat \<Rightarrow> nat \<Rightarrow> nat \<Rightarrow> nat \<Rightarrow> js_error + beat" where
  "setNote_beat b row col state =
     (case js_get (instruments b) row of
        None \<Rightarrow> Inl (TypeError ''Cannot read property pattern of undefined'')
      | Some ins \<Rightarrow>
          Inr (b\<lparr>instruments := (instruments b)[row := ins\<lparr>pattern := js_set 0 (pattern ins) col state\<rparr>]\<rparr>))"

text \<open>The cell \<open>instruments[row].pattern[col]\<close> as \<open>note\<close> reads it.\<close>

definition cell :: "beat \<Rightarrow> nat \<Rightarrow> nat \<Rightarrow> nat option" where
  "cell b row col = (case js_get (instruments b) row of None \<Rightarrow> None | Some ins \<Rightarrow> js_get (pattern ins) col)"

subsection \<open>Lemmas\<close>

lemma wf_beat_NULL_BEAT: "wf_beat NULL_BEAT"
  by (simp add: wf_beat_def wf_instrument_def NULL_BEAT_def globals_defs)

lemma wf_beat_DEMO_BEAT: "wf_beat DEMO_BEAT"
  by (simp add: wf_beat_def wf_instrument_def DEMO_BEAT_def globals_defs)

lemma wf_beat_tempo_pos: "wf_beat b \<Longrightarrow> 0 < tempo b"
  by (simp add: wf_beat_def MIN_TEMPO_def)

lemma wf_beat_instruments:
  "wf_beat b \<Longrightarrow> row < INSTRUMENTS \<Longrightarrow> wf_instrument (instruments b ! row)"
  by (auto simp: wf_beat_def)

lemma wf_beat_cell:
  assumes "wf_beat b" "row < INSTRUMENTS" "col < TRACKS"
  shows "\<exists>v. cell b row col = Some v \<and> v < length VOLUMES"
proof -
  have "wf_instrument (instruments b ! row)"
    using assms(1,2) by (rule wf_beat_instruments)
  with assms show ?thesis
    by (auto simp: cell_def js_get_def wf_beat_def wf_instrument_def list_all_length)
qed

lemma setNote_beat_row_error:
  "setNote_beat b row col v = Inl e \<longleftrightarrow>
     length (instruments b) \<le> row \<and> e = TypeError ''Cannot read property pattern of undefined''"
  by (auto simp: setNote_beat_def js_get_def split: option.splits)

lemma setNote_beat_Inr:
  "row < length (instruments b) \<Longrightarrow>
   setNote_beat b row col v =
     Inr (b\<lparr>instruments := (instruments b)[row := (instruments b ! row)\<lparr>pattern := js_set 0 (pattern (instruments b ! row)) col v\<rparr>]\<rparr>)"
  by (simp add: setNote_beat_def js_get_def)

lemma setNote_beat_frame:
  "setNote_beat b row col v = Inr b' \<Longrightarrow>
   tempo b' = tempo b \<and> swingFactor b' = swingFactor b \<and> length (instruments b') = length (instruments b)"
  by (auto simp: setNote_beat_def split: option.splits)

lemma wf_instrument_set_cell:
  "wf_instrument ins \<Longrightarrow> col < TRACKS \<Longrightarrow> v < length VOLUMES \<Longrightarrow>
   wf_instrument (ins\<lparr>pattern := js_set 0 (pattern ins) col v\<rparr>)"
  by (auto simp: wf_instrument_def js_set_in_range)

lemma setNote_beat_wf:
  assumes "wf_beat b" "row < INSTRUMENTS" "col < TRACKS" "v < length VOLUMES"
  shows "\<exists>b'. setNote_beat b row col v = Inr b' \<and> wf_beat b'"
proof -
  have len: "row < length (instruments b)"
    using assms(1,2) by (simp add: wf_beat_def)
  have "wf_instrument (instruments b ! row)"
    using assms(1,2) by (rule wf_beat_instruments)
  then have "wf_instrument ((instruments b ! row)\<lparr>pattern := js_set 0 (pattern (instruments b ! row)) col v\<rparr>)"
    using assms(3,4) by (rule wf_instrument_set_cell)
  with assms(1) len show ?thesis
    by (auto simp: setNote_beat_Inr wf_beat_def)
qed

lemma cell_setNote_beat:
  assumes "setNote_beat b row col v = Inr b'"
  shows "cell b' row col = Some v
    \<and> (\<forall>r c. (r, c) \<noteq> (row, col) \<longrightarrow> cell b r c \<noteq> None \<longrightarrow> cell b' r c = cell b r c)"
proof -
  have len: "row < length (instruments b)"
    using assms by (auto simp: setNote_beat_def js_get_def split: if_splits)
  have b': "b' = b\<lparr>instruments := (instruments b)[row := (instruments b ! row)\<lparr>pattern := js_set 0 (pattern (instruments b ! row)) col v\<rparr>]\<rparr>"
    using assms len by (simp add: setNote_beat_Inr)
  show ?thesis
    using len by (auto simp: b' cell_def js_get_def nth_list_update split: if_splits option.splits)
qed

end
