(* ===== verification/Kit.thy ===== *)
theory Kit
  imports Prelude
begin

text \<open>
  The Sample Bank: \<open>Kit\<close> and \<open>Kit.prototype.preload\<close> of
  \<^verbatim>\<open>src/DrumSampler/main.js\<close> (lines 370--446). A kit holds the sample URL of
  each voice and a \<open>buffers\<close> object from keys to \<open>null\<close> or a decoded buffer.
  \<open>preload\<close> fetches the samples one after another (each XHR's \<open>onload\<close> starts
  the next) and calls \<open>cbFinished\<close> after the last one. The network and the
  decoder are the host: \<open>fetch url\<close> says what happened to the request for
  \<open>url\<close>. A request that never loads (\<open>NoResponse\<close>: the source installs no
  \<open>onerror\<close>) stops the chain, so \<open>cbFinished\<close> is never called.
\<close>

datatype audio_buffer = AudioBuffer string

text \<open>A value stored under a key of \<open>buffers\<close>: \<open>null\<close> or a decoded buffer.\<close>

datatype slot = Null | Buffer audio_buffer

datatype fetch_outcome = Decoded audio_buffer | DecodeFailed | NoResponse

record kit =
  paths :: "(string \<times> string) list"
  buffers :: "string \<Rightarrow> slot option"

text \<open>
  \<open>new Kit(name, app)\<close>: the URLs under the application's resource root
  \<open>rootName\<close> (\<open>OSjs.API.getApplicationResource(app, "")\<close>); the initial
  \<open>buffers\<close> keys are the source's, \<open>kickBuffer\<close>, \<open>snareBuffer\<close>,
  \<open>hihatBuffer\<close>, \<open>tom1\<close>, \<open>tom2\<close>, \<open>tom3\<close>, all \<open>null\<close>.
\<close>

definition Kit :: "string \<Rightarrow> kit" where
  "Kit rootName =
    (let pathName = rootName @ ''drum-samples/'' @ ''R8'' @ ''/'' in
     \<lparr>paths = [(''kick'', pathName @ ''kick.wav''), (''snare'', pathName @ ''snare.wav''),
               (''hihat'', pathName @ ''hihat.wav''), (''tom1'', pathName @ ''tom1.wav''),
               (''tom2'', pathName @ ''tom2.wav''), (''tom3'', pathName @ ''tom3.wav'')],
      buffers = [''kickBuffer'' \<mapsto> Null, ''snareBuffer'' \<mapsto> Null, ''hihatBuffer'' \<mapsto> Null,
                 ''tom1'' \<mapsto> Null, ''tom2'' \<mapsto> Null, ''tom3'' \<mapsto> Null]\<rparr>)"

text \<open>
  \<open>cbLoaded(err, name, buffer)\<close> stores \<open>buffer || null\<close> under \<open>name\<close>. The
  decode-error callback calls \<open>cbLoaded("Error decoding sample!")\<close>: \<open>name\<close> is
  \<open>undefined\<close>, so \<open>null\<close> is stored under the key \<open>"undefined"\<close>.
\<close>

definition cbLoaded :: "(string \<Rightarrow> slot option) \<Rightarrow> string option \<Rightarrow> audio_buffer option \<Rightarrow> string \<Rightarrow> slot option" where
  "cbLoaded bufs name buffer =
     bufs((case name of None \<Rightarrow> ''undefined'' | Some n \<Rightarrow> n) \<mapsto>
          (case buffer of None \<Rightarrow> Null | Some b \<Rightarrow> Buffer b))"

text \<open>
  \<open>next()\<close> takes the first remaining key of the copied \<open>paths\<close> (insertion order),
  deletes it and preloads it; the recursion is over the remaining list. The result
  is the final \<open>buffers\<close> and whether \<open>cbFinished\<close> was called.
\<close>

fun preload_next :: "(string \<Rightarrow> fetch_outcome) \<Rightarrow> (string \<times> string) list \<Rightarrow> (string \<Rightarrow> slot option)
    \<Rightarrow> (string \<Rightarrow> slot option) \<times> bool" where
  "preload_next fetch [] bufs = (bufs, True)"
| "preload_next fetch ((name, url) # list) bufs =
     (case fetch url of
        NoResponse \<Rightarrow> (bufs, False)
      | Decoded buffer \<Rightarrow> preload_next fetch list (cbLoaded bufs (Some name) (Some buffer))
      | DecodeFailed \<Rightarrow> preload_next fetch list (cbLoaded bufs None None))"

definition preload :: "(string \<Rightarrow> fetch_outcome) \<Rightarrow> kit \<Rightarrow> kit \<times> bool" where
  "preload fetch k = (let (bufs, fin) = preload_next fetch (paths k) (buffers k) in (k\<lparr>buffers := bufs\<rparr>, fin))"

text \<open>What \<open>voice.buffer = this.kit.buffers.NAME\<close> hands the audio source.\<close>

definition buffer_of :: "kit \<Rightarrow> string \<Rightarrow> audio_buffer option" where
  "buffer_of k name = (case buffers k name of Some (Buffer b) \<Rightarrow> Some b | _ \<Rightarrow> None)"

subsection \<open>Lemmas\<close>

lemma cbLoaded_loaded [simp]: "cbLoaded bufs (Some name) (Some b) = bufs(name \<mapsto> Buffer b)"
  by (simp add: cbLoaded_def)

lemma cbLoaded_error [simp]: "cbLoaded bufs None None = bufs(''undefined'' \<mapsto> Null)"
  by (simp add: cbLoaded_def)

lemma preload_next_finished:
  "snd (preload_next fetch list bufs) \<longleftrightarrow> (\<forall>p \<in> set list. fetch (snd p) \<noteq> NoResponse)"
proof (induction list arbitrary: bufs)
  case Nil
  then show ?case by simp
next
  case (Cons p list)
  obtain n u where p: "p = (n, u)" by (cases p)
  show ?case by (cases "fetch u") (simp_all add: p Cons.IH)
qed

lemma preload_next_other:
  "name \<notin> fst ` set list \<Longrightarrow> name \<noteq> ''undefined'' \<Longrightarrow>
   fst (preload_next fetch list bufs) name = bufs name"
  by (induction list arbitrary: bufs) (auto split: fetch_outcome.splits)

lemma preload_next_loaded:
  assumes "distinct (map fst list)" "(name, url) \<in> set list" "name \<noteq> ''undefined''"
    "\<forall>p \<in> set list. fetch (snd p) \<noteq> NoResponse"
  shows "fst (preload_next fetch list bufs) name =
           (case fetch url of Decoded b \<Rightarrow> Some (Buffer b) | _ \<Rightarrow> bufs name)"
  using assms
proof (induction list arbitrary: bufs)
  case Nil
  then show ?case by simp
next
  case (Cons p list)
  obtain n u where p: "p = (n, u)" by (cases p)
  show ?case
  proof (cases "n = name")
    case True
    with Cons.prems(1,2) p have "u = url" "name \<notin> fst ` set list"
      by (auto simp: image_iff)
    with True Cons.prems(3) p show ?thesis
      by (cases "fetch u") (simp_all add: preload_next_other)
  next
    case False
    with Cons.prems p have "distinct (map fst list)" "(name, url) \<in> set list"
      "\<forall>q \<in> set list. fetch (snd q) \<noteq> NoResponse"
      by auto
    with Cons.prems(3) have IH: "\<And>bufs. fst (preload_next fetch list bufs) name =
        (case fetch url of Decoded b \<Rightarrow> Some (Buffer b) | _ \<Rightarrow> bufs name)"
      using Cons.IH by blast
    from Cons.prems(4) p have "fetch u \<noteq> NoResponse" by auto
    with False Cons.prems(3) show ?thesis
      by (cases "fetch u") (simp_all add: p IH split: fetch_outcome.splits)
  qed
qed

end
