(* ===== verification/Voice.thy ===== *)
theory Voice
  imports Pattern Kit
begin

text \<open>
  The Voice Trigger: \<open>Sampler.prototype.note\<close> of \<^verbatim>\<open>src/DrumSampler/main.js\<close>
  (lines 197--271) with its inner \<open>playNote\<close>, and the mixing graph the
  \<open>Sampler\<close> constructor builds (lines 136--158). A started one-shot source is a
  \<open>voice_trigger\<close>: its buffer (\<open>None\<close> when the kit has no decoded buffer for the
  voice, which the audio system plays as silence), the optional panner position,
  the dry and wet gains, the playback rate and the start time. \<open>note\<close> fans one
  step out over the six instruments in the source's order (kick, snare, hi-hat,
  then rows 2, 1, 0).
\<close>

record voice_trigger =
  vbuffer :: "audio_buffer option"
  panPosition :: "(real \<times> real \<times> real) option"
  dryGain :: "real option"
  wetGain :: real
  rate :: real
  start_at :: seconds

text \<open>\<open>effectDryMix\<close> is a local constant 1.0 of \<open>note\<close> (\<open>effectWetMix\<close> is unused).\<close>

definition effectDryMix :: real where "effectDryMix = 1.0"

text \<open>
  \<open>playNote(buffer, pan, x, y, z, sendGain, mainGain, playbackRate, noteTime)\<close>:
  \<open>mainGain\<close> is \<open>None\<close> where the source computes \<open>NaN\<close> (\<open>VOLUMES[v]\<close>
  \<open>undefined\<close> for a cell value past the table).
\<close>

definition playNote :: "audio_buffer option \<Rightarrow> bool \<Rightarrow> real \<Rightarrow> real \<Rightarrow> real \<Rightarrow> real \<Rightarrow> real option
    \<Rightarrow> real \<Rightarrow> seconds \<Rightarrow> voice_trigger" where
  "playNote buffer pan x y z sendGain mainGain playbackRate t =
     \<lparr>vbuffer = buffer, panPosition = (if pan then Some (x, y, z) else None),
      dryGain = map_option (\<lambda>g. g * effectDryMix) mainGain, wetGain = sendGain,
      rate = playbackRate, start_at = t\<rparr>"

text \<open>
  One \<open>if (this.beat.instruments[row].pattern[ri]) playNote.call(this, ...)\<close>
  block: reading a missing row throws; a missing or zero cell plays nothing;
  otherwise \<open>mk\<close> gets \<open>VOLUMES[cell]\<close>.
\<close>

definition play_if :: "beat \<Rightarrow> nat \<Rightarrow> nat \<Rightarrow> (real option \<Rightarrow> voice_trigger) \<Rightarrow> voice_trigger list outcome" where
  "play_if b row ri mk =
     (case js_get (instruments b) row of
        None \<Rightarrow> Threw (TypeError ''Cannot read property pattern of undefined'') []
      | Some ins \<Rightarrow>
          (let v = js_get (pattern ins) ri in
           if js_truthy v then Normal [mk (js_get VOLUMES (the v))] else Normal []))"

definition vol :: "real option \<Rightarrow> real \<Rightarrow> real option" where
  "vol volume scalar = map_option (\<lambda>v. v * scalar) volume"

text \<open>
  \<open>note(contextPlayTime, rhythmIndex)\<close>, named \<open>Sampler_note\<close> because
  \<open>note\<close> is an Isar keyword. The pitch variables \<open>kickPitch\<close> \<dots>
  \<open>tom3Pitch\<close> are the constant 0 and are passed as the playback rate.
  Row 2 (labelled Tom 3) plays buffer \<open>tom1\<close> and row 0 (Tom 1) plays \<open>tom3\<close>.
\<close>

definition Sampler_note :: "beat \<Rightarrow> kit \<Rightarrow> seconds \<Rightarrow> nat \<Rightarrow> voice_trigger list outcome" where
  "Sampler_note b k contextPlayTime ri =
     (let kickPitch = 0; snarePitch = 0; hihatPitch = 0;
          tom1Pitch = 0; tom2Pitch = 0; tom3Pitch = 0 in
      seq_out (play_if b 5 ri (\<lambda>v. playNote (buffer_of k ''kick'') False 0 0 (-2) 0.5 (vol v 1.0) kickPitch contextPlayTime))
     (seq_out (play_if b 4 ri (\<lambda>v. playNote (buffer_of k ''snare'') False 0 0 (-2) 1 (vol v 0.6) snarePitch contextPlayTime))
     (seq_out (play_if b 3 ri (\<lambda>v. playNote (buffer_of k ''hihat'') True (0.5 * real ri - 4) 0 (-1.0) 1 (vol v 0.7) hihatPitch contextPlayTime))
     (seq_out (play_if b 2 ri (\<lambda>v. playNote (buffer_of k ''tom1'') False 0 0 (-2) 1 (vol v 0.6) tom1Pitch contextPlayTime))
     (seq_out (play_if b 1 ri (\<lambda>v. playNote (buffer_of k ''tom2'') False 0 0 (-2) 1 (vol v 0.6) tom2Pitch contextPlayTime))
              (play_if b 0 ri (\<lambda>v. playNote (buffer_of k ''tom3'') False 0 0 (-2) 1 (vol v 0.6) tom3Pitch contextPlayTime)))))))"

subsection \<open>The mixing graph\<close>

datatype node = Source | Panner | DryGain | WetGain | MasterGain | EffectLevel | Convolver
  | Compressor | Destination

text \<open>The connections \<open>playNote\<close> makes for one voice.\<close>

definition playNote_edges :: "bool \<Rightarrow> (node \<times> node) list" where
  "playNote_edges pan =
     (let finalNode = (if pan then Panner else Source) in
      (if pan then [(Source, Panner)] else []) @
      [(finalNode, DryGain), (DryGain, MasterGain), (finalNode, WetGain), (WetGain, Convolver)])"

text \<open>
  The connections of the \<open>Sampler\<close> constructor; \<open>hasCompressor\<close> is whether
  \<open>context.createDynamicsCompressor\<close> exists.
\<close>

definition mix_edges :: "bool \<Rightarrow> (node \<times> node) list" where
  "mix_edges hasCompressor =
     (let finalMixNode = (if hasCompressor then Compressor else Destination) in
      (if hasCompressor then [(Compressor, Destination)] else []) @
      [(MasterGain, finalMixNode), (EffectLevel, MasterGain), (Convolver, EffectLevel)])"

text \<open>Bounded reachability in a list of connections (\<open>n\<close> hops at most).\<close>

fun reaches :: "(node \<times> node) list \<Rightarrow> nat \<Rightarrow> node \<Rightarrow> node \<Rightarrow> bool" where
  "reaches E 0 a b = (a = b)"
| "reaches E (Suc n) a b = (a = b \<or> (\<exists>e \<in> set E. fst e = a \<and> reaches E n (snd e) b))"

subsection \<open>Lemmas\<close>

lemma reaches_rtrancl: "reaches E n a b \<Longrightarrow> (a, b) \<in> (set E)\<^sup>*"
proof (induction n arbitrary: a)
  case 0
  then show ?case by simp
next
  case (Suc n)
  then show ?case by (auto intro: converse_rtrancl_into_rtrancl)
qed

lemma reaches_trancl: "reaches E n a b \<Longrightarrow> a \<noteq> b \<Longrightarrow> (a, b) \<in> (set E)\<^sup>+"
  by (auto dest: reaches_rtrancl simp: rtrancl_eq_or_trancl)


lemma set_seq_out: "set (out_value (seq_out a c)) \<subseteq> set (out_value a) \<union> set (out_value c)"
  by (cases a; cases c) auto

lemma play_if_voices: "v \<in> set (out_value (play_if b row ri mk)) \<Longrightarrow> \<exists>g. v = mk g"
  by (auto simp: play_if_def Let_def split: option.splits if_splits)

lemma Sampler_note_voices:
  assumes "v \<in> set (out_value (Sampler_note b k t ri))"
  shows "start_at v = t \<and> rate v = 0"
  using assms unfolding Sampler_note_def Let_def
  by (auto dest!: set_seq_out [THEN subsetD] play_if_voices simp: playNote_def)

lemma wf_beat_six: "wf_beat b \<Longrightarrow> INSTRUMENTS \<le> length (instruments b)"
  by (simp add: wf_beat_def)

lemma play_if_row:
  "row < length (instruments b) \<Longrightarrow>
   play_if b row ri mk =
     Normal (let v = js_get (pattern (instruments b ! row)) ri in
             if js_truthy v then [mk (js_get VOLUMES (the v))] else [])"
  by (simp add: play_if_def js_get_def Let_def)

lemma play_if_cell:
  "cell b row ri = Some c \<Longrightarrow>
   play_if b row ri mk = Normal (if c \<noteq> 0 then [mk (js_get VOLUMES c)] else [])"
  by (auto simp: play_if_def cell_def Let_def split: option.splits)

lemma wf_cells:
  assumes "wf_beat b" "ri < TRACKS"
  obtains c0 c1 c2 c3 c4 c5 where
    "cell b 0 ri = Some c0" "cell b 1 ri = Some c1" "cell b 2 ri = Some c2"
    "cell b 3 ri = Some c3" "cell b 4 ri = Some c4" "cell b 5 ri = Some c5"
    "c0 < 3" "c1 < 3" "c2 < 3" "c3 < 3" "c4 < 3" "c5 < 3"
proof -
  have len: "length VOLUMES = 3" by (simp add: VOLUMES_def)
  have all: "\<And>row. row < 6 \<Longrightarrow> \<exists>v. cell b row ri = Some v \<and> v < 3"
    using wf_beat_cell [OF assms(1) _ assms(2)] len unfolding INSTRUMENTS_def by auto
  obtain c0 where "cell b 0 ri = Some c0" "c0 < 3" using all [of 0] by auto
  moreover obtain c1 where "cell b 1 ri = Some c1" "c1 < 3" using all [of 1] by auto
  moreover obtain c2 where "cell b 2 ri = Some c2" "c2 < 3" using all [of 2] by auto
  moreover obtain c3 where "cell b 3 ri = Some c3" "c3 < 3" using all [of 3] by auto
  moreover obtain c4 where "cell b 4 ri = Some c4" "c4 < 3" using all [of 4] by auto
  moreover obtain c5 where "cell b 5 ri = Some c5" "c5 < 3" using all [of 5] by auto
  ultimately show ?thesis using that by blast
qed

lemma Sampler_note_Normal:
  assumes "INSTRUMENTS \<le> length (instruments b)"
  shows "\<exists>vs. Sampler_note b k t ri = Normal vs"
proof -
  have "0 < length (instruments b)" "1 < length (instruments b)" "2 < length (instruments b)"
    "3 < length (instruments b)" "4 < length (instruments b)" "5 < length (instruments b)"
    using assms unfolding INSTRUMENTS_def by linarith+
  then show ?thesis
    unfolding Sampler_note_def by (simp only: play_if_row seq_out.simps) simp
qed

lemma vol_cases: "c < 3 \<Longrightarrow> js_get VOLUMES c = Some (VOLUMES ! c)"
  by (simp add: js_get_def VOLUMES_def)

lemma volume_bound: "c < 3 \<Longrightarrow> 0 \<le> sc \<Longrightarrow> sc \<le> 1 \<Longrightarrow> 0 \<le> VOLUMES ! c * sc \<and> VOLUMES ! c * sc \<le> 1"
proof -
  assume a: "c < 3" "0 \<le> sc" "sc \<le> 1"
  then have "c = 0 \<or> c = 1 \<or> c = 2" by auto
  with a show ?thesis by (auto simp: VOLUMES_def)
qed

text \<open>A voice of a well-formed cell starts at the step's time, at rate 0, with a gain in \<open>[0, 1]\<close>.\<close>

lemma voice_ok:
  assumes "c < 3" "0 \<le> sc" "sc \<le> 1"
  shows "start_at (playNote buf pan x y z sg (vol (js_get VOLUMES c) sc) 0 t) = t \<and>
    rate (playNote buf pan x y z sg (vol (js_get VOLUMES c) sc) 0 t) = 0 \<and>
    (\<exists>g. dryGain (playNote buf pan x y z sg (vol (js_get VOLUMES c) sc) 0 t) = Some g \<and> 0 \<le> g \<and> g \<le> 1)"
proof -
  have "dryGain (playNote buf pan x y z sg (vol (js_get VOLUMES c) sc) 0 t) = Some (VOLUMES ! c * sc)"
    using assms(1) by (simp add: playNote_def vol_def js_get_def VOLUMES_def effectDryMix_def)
  moreover have "start_at (playNote buf pan x y z sg (vol (js_get VOLUMES c) sc) 0 t) = t"
    "rate (playNote buf pan x y z sg (vol (js_get VOLUMES c) sc) 0 t) = 0"
    by (simp_all add: playNote_def)
  ultimately show ?thesis using volume_bound [OF assms] by (intro conjI exI) auto
qed

lemma Sampler_note_short:
  "length (instruments b) \<le> 5 \<Longrightarrow>
   Sampler_note b k t ri = Threw (TypeError ''Cannot read property pattern of undefined'') []"
  by (simp add: Sampler_note_def play_if_def js_get_def)

lemma list_all_if_single [simp]: "list_all Q (if P then [x] else []) \<longleftrightarrow> (P \<longrightarrow> Q x)"
  by simp

end
