(* ===== verification/Scheduler.thy ===== *)
theory Scheduler
  imports Voice
begin

text \<open>
  The Scheduler: the transport of \<open>Sampler\<close> in \<^verbatim>\<open>src/DrumSampler/main.js\<close>
  (constructor lines 132--172, \<open>tick\<close> 274--313, \<open>toggle\<close>/\<open>stop\<close>/\<open>play\<close>
  315--352) and the document operations (\<open>destroy\<close>, \<open>load\<close>, \<open>reset\<close>,
  which stop it first, and \<open>setNote\<close>; lines 180--356).

  The state is a \<open>world\<close>: the sampler object's fields, the JavaScript objects
  that can be the current beat (a heap of beat objects: \<open>NULL_BEAT\<close> at 0,
  \<open>DEMO_BEAT\<close> at 1, each parsed document at a fresh index; the sampler holds a
  reference, and \<open>setNote\<close> mutates the referenced object in place), the host's
  pending \<open>setTimeout\<close> callbacks, the audio clock \<open>context.currentTime\<close>, and
  the outputs so far (voices started, \<open>opts.onNote\<close> calls).
\<close>

record sampler =
  kit :: kit
  beat :: nat
  playing :: bool
  timeout :: "nat option"
  startTime :: "seconds option"
  rhythmIndex :: nat
  lastDrawTime :: real
  noteTime :: real

datatype sampler_output = StartVoice voice_trigger | OnNote nat real | OnNoteStopped

record world =
  heap :: "beat list"
  smp :: sampler
  timers :: "nat list"
  next_timer :: nat
  clock :: seconds
  outputs :: "sampler_output list"

definition NULL_REF :: nat where "NULL_REF = 0"
definition DEMO_REF :: nat where "DEMO_REF = 1"

text \<open>\<open>new Sampler(opts, app)\<close>: the transport fields of lines 160--171.\<close>

definition Sampler :: "string \<Rightarrow> sampler" where
  "Sampler rootName =
     \<lparr>kit = Kit rootName, beat = DEMO_REF, playing = False, timeout = None, startTime = None,
      rhythmIndex = 0, lastDrawTime = -1, noteTime = 0.0\<rparr>"

text \<open>The page once the application is constructed; browser timer handles start at 1.\<close>

definition init_world :: "string \<Rightarrow> seconds \<Rightarrow> world" where
  "init_world rootName now =
     \<lparr>heap = [NULL_BEAT, DEMO_BEAT], smp = Sampler rootName, timers = [], next_timer = 1,
      clock = now, outputs = []\<rparr>"

definition cur_beat :: "world \<Rightarrow> beat" where
  "cur_beat w = heap w ! beat (smp w)"

text \<open>\<open>null\<close> in arithmetic is 0.\<close>

definition js_num :: "real option \<Rightarrow> real" where
  "js_num x = (case x of None \<Rightarrow> 0 | Some r \<Rightarrow> r)"

subsection \<open>tick\<close>

text \<open>The inner \<open>advanceNote\<close>: the parity of the new index chooses the swing sign.\<close>

definition advanceNote :: "beat \<Rightarrow> sampler \<Rightarrow> sampler" where
  "advanceNote b s =
     (let secondsPerBeat = 60.0 / tempo b;
          ri = (if rhythmIndex s + 1 = TRACKS then 0 else rhythmIndex s + 1) in
      s\<lparr>rhythmIndex := ri,
        noteTime := (if ri mod 2 \<noteq> 0
                     then noteTime s + (0.25 + MAX_SWING * swingFactor b) * secondsPerBeat
                     else noteTime s + (0.25 - MAX_SWING * swingFactor b) * secondsPerBeat)\<rparr>)"

text \<open>
  The body of the loop after \<open>note\<close>: notify \<open>onNote\<close> with the previous step
  index unless this \<open>noteTime\<close> was already drawn, then \<open>advanceNote\<close>.
\<close>

definition draw_and_advance :: "beat \<Rightarrow> sampler \<Rightarrow> sampler_output list \<Rightarrow> sampler \<times> sampler_output list" where
  "draw_and_advance b s outs =
     (if noteTime s \<noteq> lastDrawTime s
      then (advanceNote b (s\<lparr>lastDrawTime := noteTime s\<rparr>),
            outs @ [OnNote ((rhythmIndex s + 15) mod 16) (noteTime s)])
      else (advanceNote b s, outs))"

text \<open>
  The lookahead loop \<open>while (this.noteTime < currentTime + 0.200)\<close> of \<open>tick\<close>,
  with \<open>currentTime\<close> already made relative to \<open>startTime\<close> (\<open>st\<close>). It may not
  end (a loaded document with a tempo or swing that makes the step non-positive),
  so it is a \<open>partial_function (option)\<close>: \<open>None\<close> is a loop that never exits.
  An exception from \<open>note\<close> leaves the loop with the voices it started.
\<close>

partial_function (option) tick_loop :: "beat \<Rightarrow> kit \<Rightarrow> seconds \<Rightarrow> seconds \<Rightarrow> sampler \<Rightarrow> sampler_output list
    \<Rightarrow> (sampler \<times> sampler_output list) outcome option" where
  "tick_loop b k st currentTime s outs =
     (if noteTime s < currentTime + 0.200 then
        (let contextPlayTime = noteTime s + st in
         case Sampler_note b k contextPlayTime (rhythmIndex s) of
           Threw e vs \<Rightarrow> Some (Threw e (s, outs @ map StartVoice vs))
         | Normal vs \<Rightarrow>
             (case draw_and_advance b s (outs @ map StartVoice vs) of
                (s', outs') \<Rightarrow> tick_loop b k st currentTime s' outs'))
      else Some (Normal (s, outs)))"

text \<open>\<open>this.timeout = setTimeout(function() { self.tick(); }, 0)\<close>.\<close>

definition set_timeout :: "world \<Rightarrow> world" where
  "set_timeout w =
     (let h = next_timer w in
      w\<lparr>timers := timers w @ [h], next_timer := h + 1, smp := (smp w)\<lparr>timeout := Some h\<rparr>\<rparr>)"

definition clearTimeout :: "nat \<Rightarrow> world \<Rightarrow> world" where
  "clearTimeout h w = w\<lparr>timers := removeAll h (timers w)\<rparr>"

definition tick :: "world \<Rightarrow> world outcome option" where
  "tick w =
     (let s = smp w; st = js_num (startTime s); currentTime = clock w - st in
      case tick_loop (cur_beat w) (kit s) st currentTime s [] of
        None \<Rightarrow> None
      | Some (Threw e (s', outs)) \<Rightarrow> Some (Threw e (w\<lparr>smp := s', outputs := outputs w @ outs\<rparr>))
      | Some (Normal (s', outs)) \<Rightarrow> Some (Normal (set_timeout (w\<lparr>smp := s', outputs := outputs w @ outs\<rparr>))))"

subsection \<open>Transport\<close>

definition stop :: "world \<Rightarrow> world" where
  "stop w =
     (if \<not> playing (smp w) then w
      else
        (let w1 = (case timeout (smp w) of
                     Some h \<Rightarrow> if h \<noteq> 0 then clearTimeout h w else w
                   | None \<Rightarrow> w) in
         w1\<lparr>outputs := outputs w1 @ [OnNoteStopped],
            smp := (smp w1)\<lparr>timeout := None, playing := False, startTime := None,
                            rhythmIndex := 0, noteTime := 0.0\<rparr>\<rparr>))"

text \<open>
  \<open>play\<close>: the \<open>!this.context\<close> branch is dead (the constructor always sets
  \<open>context\<close> and nothing clears it) and is not modelled.
\<close>

definition play :: "world \<Rightarrow> world outcome option" where
  "play w =
     (if playing (smp w) then Some (Normal w)
      else
        (let w1 = stop w in
         tick (w1\<lparr>smp := (smp w1)\<lparr>playing := True, startTime := Some (clock w1 + 0.005),
                                    noteTime := 0.0\<rparr>\<rparr>)))"

definition toggle :: "world \<Rightarrow> world outcome option" where
  "toggle w = (if playing (smp w) then Some (Normal (stop w)) else play w)"

text \<open>The host runs a pending callback: it is no longer pending, and \<open>tick\<close> runs.\<close>

definition fire :: "nat \<Rightarrow> world \<Rightarrow> world outcome option" where
  "fire h w = (if h \<in> set (timers w) then tick (w\<lparr>timers := removeAll h (timers w)\<rparr>) else Some (Normal w))"

subsection \<open>Document operations\<close>

text \<open>
  What \<open>load(data)\<close> is given: a string, here as the document \<open>JSON.parse\<close>
  makes of it (\<open>None\<close>: the text is not JSON and \<open>JSON.parse\<close> throws a
  \<open>SyntaxError\<close>), or an object already in the heap (\<open>doOpen(null, DEMO_BEAT)\<close>).
\<close>

datatype load_data = LoadText "beat option" | LoadObject nat

definition load :: "load_data \<Rightarrow> world \<Rightarrow> world outcome" where
  "load d w =
     (let w1 = stop w in
      case d of
        LoadText None \<Rightarrow> Threw SyntaxError w1
      | LoadText (Some b) \<Rightarrow>
          Normal (w1\<lparr>heap := heap w1 @ [b], smp := (smp w1)\<lparr>beat := length (heap w1)\<rparr>\<rparr>)
      | LoadObject r \<Rightarrow> Normal (w1\<lparr>smp := (smp w1)\<lparr>beat := r\<rparr>\<rparr>))"

definition reset :: "world \<Rightarrow> world" where
  "reset w = (let w1 = stop w in w1\<lparr>smp := (smp w1)\<lparr>beat := NULL_REF\<rparr>\<rparr>)"

definition setNote :: "nat \<Rightarrow> nat \<Rightarrow> nat \<Rightarrow> world \<Rightarrow> world outcome" where
  "setNote row col state w =
     (case setNote_beat (cur_beat w) row col state of
        Inl e \<Rightarrow> Threw e w
      | Inr b' \<Rightarrow> Normal (w\<lparr>heap := (heap w)[beat (smp w) := b']\<rparr>))"

text \<open>\<open>destroy\<close>: \<open>stop\<close>, then \<open>kit\<close> and \<open>beat\<close> are set to \<open>null\<close>; its only caller
  (the window's \<open>destroy\<close>) drops the sampler right after, so only \<open>stop\<close> is
  observable.\<close>

definition destroy :: "world \<Rightarrow> world" where
  "destroy w = stop w"

subsection \<open>Unfolding the loop\<close>

lemma tick_loop_exit:
  "\<not> noteTime s < currentTime + 0.2 \<Longrightarrow> tick_loop b k st currentTime s outs = Some (Normal (s, outs))"
  by (simp add: tick_loop.simps)

lemma tick_loop_threw:
  "noteTime s < currentTime + 0.2 \<Longrightarrow> Sampler_note b k (noteTime s + st) (rhythmIndex s) = Threw e vs \<Longrightarrow>
   tick_loop b k st currentTime s outs = Some (Threw e (s, outs @ map StartVoice vs))"
  by (simp add: tick_loop.simps)

lemma tick_loop_continue:
  "noteTime s < currentTime + 0.2 \<Longrightarrow> Sampler_note b k (noteTime s + st) (rhythmIndex s) = Normal vs \<Longrightarrow>
   tick_loop b k st currentTime s outs =
     tick_loop b k st currentTime (fst (draw_and_advance b s (outs @ map StartVoice vs)))
       (snd (draw_and_advance b s (outs @ map StartVoice vs)))"
  by (subst tick_loop.simps) (simp add: case_prod_beta)

lemmas tick_loop_unfold = tick_loop_exit tick_loop_threw tick_loop_continue

end
