(* ===== verification/Lookahead.thy ===== *)
theory Lookahead
  imports Scheduler
begin

text \<open>
  Properties of the scheduling loop of \<open>Sampler.prototype.tick\<close>: how far
  \<open>advanceNote\<close> moves the cursor (the swing pair and a whole loop), that the
  lookahead loop exits for every well-formed beat, and that every voice it starts
  lies inside the lookahead window. \<open>voices_of\<close> lists the voices among outputs.
\<close>

fun voices_of :: "sampler_output list \<Rightarrow> voice_trigger list" where
  "voices_of [] = []"
| "voices_of (StartVoice v # outs) = v # voices_of outs"
| "voices_of (_ # outs) = voices_of outs"

text \<open>The shortest cursor step a beat can take.\<close>

definition min_step :: "beat \<Rightarrow> real" where
  "min_step b = (0.25 - MAX_SWING * \<bar>swingFactor b\<bar>) * (60 / tempo b)"

text \<open>
  What one run of the loop guarantees: the outputs are extended, every voice
  started lies in \<open>[lo, hi)\<close> of the audio clock, the transport fields other than
  the cursor are untouched and the cursor only moves forward.
\<close>

definition window_ok :: "seconds \<Rightarrow> seconds \<Rightarrow> sampler_output list \<Rightarrow> bool" where
  "window_ok lo hi new = list_all (\<lambda>v. lo \<le> start_at v \<and> start_at v < hi) (voices_of new)"

definition frame_ok :: "sampler \<Rightarrow> sampler \<Rightarrow> bool" where
  "frame_ok s s' \<longleftrightarrow>
     playing s' = playing s \<and> startTime s' = startTime s \<and> timeout s' = timeout s \<and>
     beat s' = beat s \<and> kit s' = kit s \<and> noteTime s \<le> noteTime s' \<and>
     (rhythmIndex s < TRACKS \<longrightarrow> rhythmIndex s' < TRACKS)"

definition loop_ok :: "seconds \<Rightarrow> seconds \<Rightarrow> sampler \<Rightarrow> sampler_output list
    \<Rightarrow> (sampler \<times> sampler_output list) outcome \<Rightarrow> bool" where
  "loop_ok st currentTime s outs r =
     (case r of
        Normal (s', outs') \<Rightarrow>
          \<exists>new. outs' = outs @ new \<and> currentTime + 0.2 \<le> noteTime s' \<and> frame_ok s s' \<and>
                window_ok (st + noteTime s) (st + currentTime + 0.2) new
      | Threw e (s', outs') \<Rightarrow>
          \<exists>new. outs' = outs @ new \<and> frame_ok s s' \<and>
                window_ok (st + noteTime s) (st + currentTime + 0.2) new)"

subsection \<open>Voices of one step\<close>

lemma voices_of_append [simp]: "voices_of (xs @ ys) = voices_of xs @ voices_of ys"
  by (induction xs rule: voices_of.induct) auto

lemma voices_of_map_StartVoice [simp]: "voices_of (map StartVoice vs) = vs"
  by (induction vs) auto

lemma voices_of_OnNote [simp]: "voices_of [OnNote i t] = []"
  by simp

subsection \<open>advanceNote\<close>

lemma advanceNote_simps:
  "rhythmIndex (advanceNote b s) = (if Suc (rhythmIndex s) = TRACKS then 0 else Suc (rhythmIndex s))"
  "lastDrawTime (advanceNote b s) = lastDrawTime s"
  "startTime (advanceNote b s) = startTime s"
  "playing (advanceNote b s) = playing s"
  by (simp_all add: advanceNote_def Let_def)

lemma advanceNote_noteTime:
  "noteTime (advanceNote b s) =
     noteTime s + (if rhythmIndex (advanceNote b s) mod 2 \<noteq> 0
                   then 0.25 + MAX_SWING * swingFactor b else 0.25 - MAX_SWING * swingFactor b) * (60 / tempo b)"
  by (simp add: advanceNote_def Let_def distrib_right)

lemma advanceNote_lastDrawTime_upd:
  "advanceNote b (s\<lparr>lastDrawTime := x\<rparr>) = (advanceNote b s)\<lparr>lastDrawTime := x\<rparr>"
  by (simp add: advanceNote_def Let_def)

lemma advanceNote_index_bound: "rhythmIndex s < TRACKS \<Longrightarrow> rhythmIndex (advanceNote b s) < TRACKS"
  by (auto simp: advanceNote_simps TRACKS_def)

lemma advanceNote_parity:
  "rhythmIndex s < TRACKS \<Longrightarrow>
   odd (rhythmIndex (advanceNote b s)) \<longleftrightarrow> even (rhythmIndex s)"
  by (auto simp: advanceNote_simps TRACKS_def)

lemma advanceNote_min_step:
  assumes "0 < tempo b"
  shows "noteTime s + min_step b \<le> noteTime (advanceNote b s)"
proof -
  have le: "0.25 - MAX_SWING * \<bar>swingFactor b\<bar> \<le>
      (if rhythmIndex (advanceNote b s) mod 2 \<noteq> 0
       then 0.25 + MAX_SWING * swingFactor b else 0.25 - MAX_SWING * swingFactor b)"
    by (simp add: MAX_SWING_def) (use abs_ge_self abs_ge_minus_self [of "swingFactor b"] in linarith)
  have "(0.25 - MAX_SWING * \<bar>swingFactor b\<bar>) * (60 / tempo b) \<le>
      (if rhythmIndex (advanceNote b s) mod 2 \<noteq> 0
       then 0.25 + MAX_SWING * swingFactor b else 0.25 - MAX_SWING * swingFactor b) * (60 / tempo b)"
    using le assms by (intro mult_right_mono) auto
  then show ?thesis
    unfolding min_step_def advanceNote_noteTime by linarith
qed

lemma min_step_pos:
  "0 < tempo b \<Longrightarrow> MAX_SWING * \<bar>swingFactor b\<bar> < 0.25 \<Longrightarrow> 0 < min_step b"
  by (simp add: min_step_def)

lemma wf_beat_min_step: "wf_beat b \<Longrightarrow> 0 < min_step b"
  by (rule min_step_pos) (auto simp: wf_beat_def globals_defs)

lemma advanceNote_twice:
  assumes "rhythmIndex s < TRACKS"
  shows "noteTime (advanceNote b (advanceNote b s)) = noteTime s + 30 / tempo b"
proof -
  let ?s1 = "advanceNote b s"
  have p: "odd (rhythmIndex (advanceNote b ?s1)) \<longleftrightarrow> even (rhythmIndex ?s1)"
    using assms by (intro advanceNote_parity advanceNote_index_bound)
  have "noteTime (advanceNote b ?s1) = noteTime s + (0.25 + 0.25) * (60 / tempo b)"
    using p unfolding advanceNote_noteTime [of b ?s1] advanceNote_noteTime [of b s]
    by (auto simp: algebra_simps simp flip: add_divide_distrib)
  then show ?thesis by simp
qed

lemma advanceNote_pow_index:
  "rhythmIndex s < TRACKS \<Longrightarrow> rhythmIndex ((advanceNote b ^^ n) s) = (rhythmIndex s + n) mod TRACKS"
proof (induction n)
  case 0
  then show ?case by simp
next
  case (Suc n)
  then show ?case
    by (simp add: advanceNote_simps TRACKS_def mod_Suc)
qed

lemma advanceNote_pow_even:
  "rhythmIndex s < TRACKS \<Longrightarrow>
   noteTime ((advanceNote b ^^ (2 * n)) s) = noteTime s + real n * (30 / tempo b)"
proof (induction n)
  case 0
  then show ?case by simp
next
  case (Suc n)
  have "rhythmIndex ((advanceNote b ^^ (2 * n)) s) < TRACKS"
    using Suc.prems by (simp add: advanceNote_pow_index TRACKS_def)
  then have "noteTime ((advanceNote b ^^ (2 * Suc n)) s) =
      noteTime ((advanceNote b ^^ (2 * n)) s) + 30 / tempo b"
    by (simp add: advanceNote_twice)
  with Suc show ?case by (simp add: algebra_simps add_divide_distrib)
qed

text \<open>A negative tempo (a loaded document) makes every step move the cursor back.\<close>

lemma advanceNote_backwards:
  assumes "tempo b < 0" "\<bar>swingFactor b\<bar> \<le> 1"
  shows "noteTime (advanceNote b s) < noteTime s"
proof -
  have f: "0 < 0.25 + MAX_SWING * swingFactor b" "0 < 0.25 - MAX_SWING * swingFactor b"
    using assms(2) abs_le_iff [of "swingFactor b" 1] by (simp_all add: MAX_SWING_def)
  have n: "60 / tempo b < 0" using assms(1) by (simp add: divide_pos_neg)
  show ?thesis
    using mult_pos_neg [OF f(1) n] mult_pos_neg [OF f(2) n] by (simp add: advanceNote_noteTime)
qed

subsection \<open>One pass of the loop body\<close>

lemma draw_and_advance_fst [simp]:
  "noteTime (fst (draw_and_advance b s outs)) = noteTime (advanceNote b s)"
  "rhythmIndex (fst (draw_and_advance b s outs)) = rhythmIndex (advanceNote b s)"
  "lastDrawTime (fst (draw_and_advance b s outs)) = noteTime s"
  "playing (fst (draw_and_advance b s outs)) = playing s"
  "startTime (fst (draw_and_advance b s outs)) = startTime s"
  "timeout (fst (draw_and_advance b s outs)) = timeout s"
  "kit (fst (draw_and_advance b s outs)) = kit s"
  "beat (fst (draw_and_advance b s outs)) = beat s"
  by (simp_all add: draw_and_advance_def advanceNote_def Let_def)

lemma draw_and_advance_snd:
  "snd (draw_and_advance b s outs) =
     outs @ (if noteTime s \<noteq> lastDrawTime s then [OnNote ((rhythmIndex s + 15) mod 16) (noteTime s)] else [])"
  by (simp add: draw_and_advance_def)

subsection \<open>The loop runs to the horizon\<close>

lemma window_ok_Nil [simp]: "window_ok lo hi []"
  by (simp add: window_ok_def)

lemma window_ok_append [simp]: "window_ok lo hi (xs @ ys) \<longleftrightarrow> window_ok lo hi xs \<and> window_ok lo hi ys"
  by (simp add: window_ok_def)

lemma window_ok_OnNote [simp]: "window_ok lo hi [OnNote i t]"
  by (simp add: window_ok_def)

lemma window_ok_mono: "window_ok lo hi xs \<Longrightarrow> lo' \<le> lo \<Longrightarrow> window_ok lo' hi xs"
  by (auto simp: window_ok_def list_all_iff)

lemma window_ok_note:
  "lo \<le> t \<Longrightarrow> t < hi \<Longrightarrow> window_ok lo hi (map StartVoice (out_value (Sampler_note b k t ri)))"
  by (auto simp: window_ok_def list_all_iff dest: Sampler_note_voices)

lemma frame_ok_refl [simp]: "frame_ok s s"
  by (simp add: frame_ok_def)

lemma frame_ok_trans: "frame_ok s s' \<Longrightarrow> frame_ok s' s'' \<Longrightarrow> frame_ok s s''"
  by (auto simp: frame_ok_def)

lemma frame_ok_draw:
  assumes "0 < tempo b" "0 \<le> min_step b"
  shows "frame_ok s (fst (draw_and_advance b s outs))"
  using advanceNote_min_step [OF assms(1), of s] assms(2) advanceNote_index_bound [of s b]
  by (simp add: frame_ok_def advanceNote_def Let_def)

lemma tick_loop_budget:
  assumes "0 < tempo b" "0 < min_step b"
  shows "currentTime + 0.2 - noteTime s \<le> real n * min_step b \<Longrightarrow>
    \<exists>r. tick_loop b k st currentTime s outs = Some r \<and> loop_ok st currentTime s outs r"
proof (induction n arbitrary: s outs)
  case 0
  then have "\<not> noteTime s < currentTime + 0.2" by simp
  then show ?case by (simp add: tick_loop_exit loop_ok_def)
next
  case (Suc n)
  show ?case
  proof (cases "noteTime s < currentTime + 0.2")
    case False
    then show ?thesis by (simp add: tick_loop_exit loop_ok_def)
  next
    case go: True
    let ?t = "noteTime s + st"
    have win: "window_ok (st + noteTime s) (st + currentTime + 0.2)
        (map StartVoice (out_value (Sampler_note b k ?t (rhythmIndex s))))"
      using go by (intro window_ok_note) auto
    show ?thesis
    proof (cases "Sampler_note b k ?t (rhythmIndex s)")
      case (Threw e vs)
      with go win show ?thesis by (auto simp: tick_loop_threw loop_ok_def)
    next
      case (Normal vs)
      let ?s1 = "fst (draw_and_advance b s (outs @ map StartVoice vs))"
      let ?o1 = "snd (draw_and_advance b s (outs @ map StartVoice vs))"
      have f1: "frame_ok s ?s1"
        using assms by (intro frame_ok_draw) auto
      have "noteTime s + min_step b \<le> noteTime ?s1"
        using advanceNote_min_step [OF assms(1)] by simp
      with Suc.prems have "currentTime + 0.2 - noteTime ?s1 \<le> real n * min_step b"
        by (simp add: algebra_simps)
      then obtain r where r: "tick_loop b k st currentTime ?s1 ?o1 = Some r"
        and ok: "loop_ok st currentTime ?s1 ?o1 r"
        using Suc.IH by blast
      have lo: "st + noteTime s \<le> st + noteTime (advanceNote b s)"
        using f1 by (simp add: frame_ok_def)
      have w0: "window_ok (st + noteTime s) (st + currentTime + 0.2)
          (map StartVoice vs @ (if noteTime s \<noteq> lastDrawTime s
                                then [OnNote ((rhythmIndex s + 15) mod 16) (noteTime s)] else []))"
        using win Normal by simp
      have "loop_ok st currentTime s outs r"
        using ok f1 lo w0 unfolding loop_ok_def draw_and_advance_snd
        by (auto split: outcome.splits intro: frame_ok_trans [OF f1] window_ok_mono [OF _ lo])
      with go Normal r show ?thesis by (simp add: tick_loop_continue)
    qed
  qed
qed

lemma tick_loop_total:
  assumes "0 < tempo b" "0 < min_step b"
  shows "\<exists>r. tick_loop b k st currentTime s outs = Some r \<and> loop_ok st currentTime s outs r"
proof -
  obtain n where "currentTime + 0.2 - noteTime s \<le> real n * min_step b"
    using ex_less_of_nat_mult [OF assms(2)] by (meson less_le_not_le nle_le)
  then show ?thesis using assms by (rule_tac tick_loop_budget) auto
qed

end
