(* ===== verification/Transport.thy ===== *)
theory Transport
  imports Lookahead
begin

text \<open>
  The sampler inside its host: the events that reach it (the window's
  Play/Pause menu item and toggle buttons, File/New and File/Open, the kit
  finishing its preload, a pending \<open>setTimeout\<close> callback firing, the audio clock
  advancing), one deterministic \<open>step\<close> per event, and the reachable worlds as an
  inductive set. An exception escaping a handler ends that handler only: the page
  keeps the state reached so far, so \<open>step\<close> keeps the world of a \<open>Threw\<close>.
  \<open>reach ok\<close> admits only loaded documents satisfying \<open>ok\<close>; \<open>reach (\<lambda>_. True)\<close>
  is every run. The invariant \<open>transport_inv\<close> holds in every reachable world.
\<close>

datatype event =
    EvToggle
  | EvFire nat
  | EvSetNote nat nat nat
  | EvLoad load_data
  | EvReset
  | EvKitLoaded "string \<Rightarrow> fetch_outcome"

text \<open>
  \<open>onPlayPressed\<close> calls \<open>toggle\<close>, \<open>onButtonToggle\<close> calls \<open>setNote\<close>,
  \<open>doOpen\<close> calls \<open>load\<close>, \<open>doNew\<close> calls \<open>reset\<close>, \<open>_inited\<close> calls
  \<open>sampler.init\<close>, which preloads the kit.
\<close>

fun step :: "event \<Rightarrow> world \<Rightarrow> world option" where
  "step EvToggle w = map_option out_value (toggle w)"
| "step (EvFire h) w = map_option out_value (fire h w)"
| "step (EvSetNote row col v) w = Some (out_value (setNote row col v w))"
| "step (EvLoad d) w = Some (out_value (load d w))"
| "step EvReset w = Some (reset w)"
| "step (EvKitLoaded fetch) w = Some (w\<lparr>smp := (smp w)\<lparr>kit := fst (preload fetch (kit (smp w)))\<rparr>\<rparr>)"

text \<open>The only object the application hands to \<open>load\<close> is \<open>DEMO_BEAT\<close> (Load demo track).\<close>

fun event_ok :: "(beat \<Rightarrow> bool) \<Rightarrow> event \<Rightarrow> bool" where
  "event_ok ok (EvLoad (LoadText (Some b))) = ok b"
| "event_ok ok (EvLoad (LoadObject r)) = (r = DEMO_REF)"
| "event_ok ok _ = True"

inductive reach :: "(beat \<Rightarrow> bool) \<Rightarrow> world \<Rightarrow> bool" for ok where
  start: "reach ok (init_world rootName now)"
| event: "reach ok w \<Longrightarrow> event_ok ok e \<Longrightarrow> step e w = Some w' \<Longrightarrow> reach ok w'"
| wait: "reach ok w \<Longrightarrow> 0 \<le> d \<Longrightarrow> reach ok (w\<lparr>clock := clock w + d\<rparr>)"

definition transport_inv :: "world \<Rightarrow> bool" where
  "transport_inv w \<longleftrightarrow>
     2 \<le> length (heap w) \<and> beat (smp w) < length (heap w) \<and> rhythmIndex (smp w) < TRACKS \<and>
     set (timers w) \<subseteq> set_option (timeout (smp w)) \<and>
     (\<forall>h. timeout (smp w) = Some h \<longrightarrow> 0 < h \<and> h < next_timer w) \<and> 0 < next_timer w \<and>
     (\<not> playing (smp w) \<longrightarrow>
        timeout (smp w) = None \<and> rhythmIndex (smp w) = 0 \<and> noteTime (smp w) = 0 \<and>
        startTime (smp w) = None)"

text \<open>What every run of the loop keeps, whatever the beat.\<close>

definition frame_weak :: "sampler \<Rightarrow> sampler \<Rightarrow> bool" where
  "frame_weak s s' \<longleftrightarrow>
     playing s' = playing s \<and> startTime s' = startTime s \<and> timeout s' = timeout s \<and>
     beat s' = beat s \<and> kit s' = kit s \<and> (rhythmIndex s < TRACKS \<longrightarrow> rhythmIndex s' < TRACKS)"

text \<open>The state \<open>tick\<close> starts from in \<open>play\<close> and \<open>fire\<close>: playing, nothing pending.\<close>

definition tick_pre :: "world \<Rightarrow> bool" where
  "tick_pre w \<longleftrightarrow>
     2 \<le> length (heap w) \<and> beat (smp w) < length (heap w) \<and> rhythmIndex (smp w) < TRACKS \<and>
     timers w = [] \<and> playing (smp w) \<and> 0 < next_timer w \<and>
     (\<forall>h. timeout (smp w) = Some h \<longrightarrow> 0 < h \<and> h < next_timer w)"

text \<open>
  The liveness invariant: every beat object has the six instruments \<open>note\<close> reads,
  and a playing sampler has exactly one pending callback, its \<open>timeout\<close>.
\<close>

definition six :: "beat \<Rightarrow> bool" where
  "six b \<longleftrightarrow> INSTRUMENTS \<le> length (instruments b)"

definition live_inv :: "world \<Rightarrow> bool" where
  "live_inv w \<longleftrightarrow> transport_inv w \<and> list_all six (heap w) \<and>
     (playing (smp w) \<longrightarrow> (\<exists>h. timeout (smp w) = Some h \<and> timers w = [h]))"

subsection \<open>The loop, partially\<close>

lemma frame_weak_trans: "frame_weak s s' \<Longrightarrow> frame_weak s' s'' \<Longrightarrow> frame_weak s s''"
  by (auto simp: frame_weak_def)

lemma frame_weak_draw: "frame_weak s (fst (draw_and_advance b s outs))"
  using advanceNote_index_bound [of s b] by (simp add: frame_weak_def advanceNote_def Let_def)

text \<open>
  Partial correctness of the loop (\<open>tick_loop.raw_induct\<close>): if it returns, the
  transport fields are as before, the index stays in range, and a beat with six
  instruments never throws.
\<close>

lemma tick_loop_frame:
  assumes "tick_loop b k st ct s outs = Some r"
  shows "frame_weak s (fst (out_value r)) \<and>
         (INSTRUMENTS \<le> length (instruments b) \<longrightarrow> (\<exists>x. r = Normal x))"
proof (rule tick_loop.raw_induct [where P = "\<lambda>b k st ct s outs r. frame_weak s (fst (out_value r)) \<and>
         (INSTRUMENTS \<le> length (instruments b) \<longrightarrow> (\<exists>x. r = Normal x))", OF _ assms])
  fix f :: "beat \<Rightarrow> kit \<Rightarrow> seconds \<Rightarrow> seconds \<Rightarrow> sampler \<Rightarrow> sampler_output list
    \<Rightarrow> (sampler \<times> sampler_output list) outcome option"
  fix b k st currentTime s outs r
  assume IH: "\<And>b k st currentTime s outs r. f b k st currentTime s outs = Some r \<Longrightarrow>
      frame_weak s (fst (out_value r)) \<and> (INSTRUMENTS \<le> length (instruments b) \<longrightarrow> (\<exists>x. r = Normal x))"
  assume eq: "(if noteTime s < currentTime + 0.200 then
        (let contextPlayTime = noteTime s + st in
         case Sampler_note b k contextPlayTime (rhythmIndex s) of
           Threw e vs \<Rightarrow> Some (Threw e (s, outs @ map StartVoice vs))
         | Normal vs \<Rightarrow>
             (case draw_and_advance b s (outs @ map StartVoice vs) of
                (s', outs') \<Rightarrow> f b k st currentTime s' outs'))
      else Some (Normal (s, outs))) = Some r"
  show "frame_weak s (fst (out_value r)) \<and>
        (INSTRUMENTS \<le> length (instruments b) \<longrightarrow> (\<exists>x. r = Normal x))"
  proof (cases "noteTime s < currentTime + 0.2")
    case False
    with eq have "r = Normal (s, outs)" by simp
    then show ?thesis by (simp add: frame_weak_def)
  next
    case True
    show ?thesis
    proof (cases "Sampler_note b k (noteTime s + st) (rhythmIndex s)")
      case (Threw e vs)
      have no6: "\<not> INSTRUMENTS \<le> length (instruments b)"
      proof
        assume "INSTRUMENTS \<le> length (instruments b)"
        then obtain vs' where "Sampler_note b k (noteTime s + st) (rhythmIndex s) = Normal vs'"
          using Sampler_note_Normal by blast
        with Threw show False by simp
      qed
      from True Threw eq have "r = Threw e (s, outs @ map StartVoice vs)" by simp
      with no6 show ?thesis by (simp add: frame_weak_def)
    next
      case (Normal vs)
      let ?d = "draw_and_advance b s (outs @ map StartVoice vs)"
      from True Normal eq have "f b k st currentTime (fst ?d) (snd ?d) = Some r"
        by (simp add: case_prod_beta)
      then have "frame_weak (fst ?d) (fst (out_value r)) \<and>
          (INSTRUMENTS \<le> length (instruments b) \<longrightarrow> (\<exists>x. r = Normal x))"
        by (rule IH)
      then show ?thesis using frame_weak_trans [OF frame_weak_draw] by blast
    qed
  qed
qed

text \<open>
  Non-termination: with a negative tempo and six instruments the cursor only moves
  back, so once the loop body runs it runs forever (\<open>None\<close>).
\<close>

lemma tick_loop_diverges:
  assumes "tempo b < 0" "\<bar>swingFactor b\<bar> \<le> 1" "INSTRUMENTS \<le> length (instruments b)"
    "noteTime s < ct + 0.2"
  shows "tick_loop b k st ct s outs = None"
proof (cases "tick_loop b k st ct s outs")
  case (Some r)
  have "b = b \<longrightarrow> noteTime s < ct + 0.2 \<longrightarrow> False"
  proof (rule tick_loop.raw_induct [where P = "\<lambda>b' k st ct s outs r. b' = b \<longrightarrow> noteTime s < ct + 0.2 \<longrightarrow> False",
      OF _ Some])
    fix f :: "beat \<Rightarrow> kit \<Rightarrow> seconds \<Rightarrow> seconds \<Rightarrow> sampler \<Rightarrow> sampler_output list
      \<Rightarrow> (sampler \<times> sampler_output list) outcome option"
    fix b' k st currentTime s outs r
    assume IH: "\<And>b' k st currentTime s outs r. f b' k st currentTime s outs = Some r \<Longrightarrow>
        b' = b \<longrightarrow> noteTime s < currentTime + 0.2 \<longrightarrow> False"
    assume eq: "(if noteTime s < currentTime + 0.200 then
          (let contextPlayTime = noteTime s + st in
           case Sampler_note b' k contextPlayTime (rhythmIndex s) of
             Threw e vs \<Rightarrow> Some (Threw e (s, outs @ map StartVoice vs))
           | Normal vs \<Rightarrow>
               (case draw_and_advance b' s (outs @ map StartVoice vs) of
                  (s', outs') \<Rightarrow> f b' k st currentTime s' outs'))
        else Some (Normal (s, outs))) = Some r"
    show "b' = b \<longrightarrow> noteTime s < currentTime + 0.2 \<longrightarrow> False"
    proof (intro impI)
      assume bb: "b' = b" and lt: "noteTime s < currentTime + 0.2"
      obtain vs where vs: "Sampler_note b k (noteTime s + st) (rhythmIndex s) = Normal vs"
        using Sampler_note_Normal [OF assms(3)] by blast
      let ?d = "draw_and_advance b s (outs @ map StartVoice vs)"
      from lt vs eq bb have "f b k st currentTime (fst ?d) (snd ?d) = Some r"
        by (simp add: case_prod_beta)
      moreover have "noteTime (fst ?d) < currentTime + 0.2"
        using advanceNote_backwards [OF assms(1,2), of s] lt by simp
      ultimately show False using IH by blast
    qed
  qed
  with assms(4) show ?thesis by blast
qed simp

subsection \<open>Operations\<close>

lemma tick_Some:
  assumes "tick w = Some r"
  shows "\<exists>s' outs. frame_weak (smp w) s' \<and>
     (r = Normal (set_timeout (w\<lparr>smp := s', outputs := outputs w @ outs\<rparr>)) \<or>
      (\<exists>e. r = Threw e (w\<lparr>smp := s', outputs := outputs w @ outs\<rparr>)))"
proof -
  let ?s = "smp w"
  let ?st = "js_num (startTime ?s)"
  obtain r' where r': "tick_loop (cur_beat w) (kit ?s) ?st (clock w - ?st) ?s [] = Some r'"
    using assms by (cases "tick_loop (cur_beat w) (kit ?s) ?st (clock w - ?st) ?s []")
      (auto simp: tick_def Let_def)
  have fr: "frame_weak ?s (fst (out_value r'))"
    using tick_loop_frame [OF r'] by blast
  show ?thesis
  proof (cases r')
    case (Normal x)
    obtain s' o' where x: "x = (s', o')" by (cases x)
    with Normal r' assms fr show ?thesis by (auto simp: tick_def Let_def)
  next
    case (Threw e x)
    obtain s' o' where x: "x = (s', o')" by (cases x)
    with Threw r' assms fr show ?thesis by (auto simp: tick_def Let_def)
  qed
qed

text \<open>On a well-formed beat \<open>tick\<close> returns normally and re-arms.\<close>

lemma tick_wf:
  assumes "wf_beat (cur_beat w)"
  shows "\<exists>s' new. tick w = Some (Normal (set_timeout (w\<lparr>smp := s', outputs := outputs w @ new\<rparr>))) \<and>
     frame_ok (smp w) s' \<and> clock w + 0.2 \<le> js_num (startTime (smp w)) + noteTime s' \<and>
     window_ok (js_num (startTime (smp w)) + noteTime (smp w)) (clock w + 0.2) new"
proof -
  let ?s = "smp w"
  let ?st = "js_num (startTime ?s)"
  obtain r where r: "tick_loop (cur_beat w) (kit ?s) ?st (clock w - ?st) ?s [] = Some r"
    and ok: "loop_ok ?st (clock w - ?st) ?s [] r"
    using tick_loop_total [OF wf_beat_tempo_pos [OF assms] wf_beat_min_step [OF assms]] by blast
  obtain x where x: "r = Normal x"
    using tick_loop_frame [OF r] wf_beat_six [OF assms] by blast
  obtain s' o' where "x = (s', o')" by (cases x)
  with r ok x have "tick w = Some (Normal (set_timeout (w\<lparr>smp := s', outputs := outputs w @ o'\<rparr>)))"
    "frame_ok ?s s'" "clock w + 0.2 \<le> ?st + noteTime s'"
    "window_ok (?st + noteTime ?s) (clock w + 0.2) o'"
    by (auto simp: tick_def Let_def loop_ok_def)
  then show ?thesis by blast
qed

lemma set_timeout_fields [simp]:
  "heap (set_timeout w) = heap w" "timers (set_timeout w) = timers w @ [next_timer w]"
  "next_timer (set_timeout w) = Suc (next_timer w)" "smp (set_timeout w) = (smp w)\<lparr>timeout := Some (next_timer w)\<rparr>"
  "outputs (set_timeout w) = outputs w" "clock (set_timeout w) = clock w"
  by (simp_all add: set_timeout_def Let_def)

lemma tick_inv: "tick_pre w \<Longrightarrow> tick w = Some r \<Longrightarrow> transport_inv (out_value r)"
  by (drule tick_Some) (auto simp: tick_pre_def transport_inv_def frame_weak_def)

lemma stop_inv:
  assumes "transport_inv w"
  shows "transport_inv (stop w) \<and> \<not> playing (smp (stop w)) \<and> timers (stop w) = []"
proof (cases "playing (smp w)")
  case False
  with assms show ?thesis by (auto simp: stop_def transport_inv_def)
next
  case True
  then show ?thesis
    using assms
    by (auto simp: stop_def transport_inv_def clearTimeout_def Let_def removeAll_single split: option.splits)
qed

lemma stop_heap [simp]: "heap (stop w) = heap w" "beat (smp (stop w)) = beat (smp w)"
  "kit (smp (stop w)) = kit (smp w)" "clock (stop w) = clock w" "next_timer (stop w) = next_timer w"
  by (auto simp: stop_def clearTimeout_def Let_def split: option.splits)

lemma play_inv:
  assumes "transport_inv w" "play w = Some r"
  shows "transport_inv (out_value r)"
proof (cases "playing (smp w)")
  case True
  with assms(2) have "r = Normal w" by (simp add: play_def)
  with assms(1) show ?thesis by simp
next
  case False
  let ?w1 = "stop w"
  have s1: "transport_inv ?w1" "\<not> playing (smp ?w1)" "timers ?w1 = []"
    using stop_inv [OF assms(1)] by auto
  let ?w2 = "?w1\<lparr>smp := (smp ?w1)\<lparr>playing := True, startTime := Some (clock ?w1 + 0.005), noteTime := 0.0\<rparr>\<rparr>"
  have "tick_pre ?w2"
    using s1 by (simp add: tick_pre_def transport_inv_def)
  moreover have "tick ?w2 = Some r"
    using assms(2) False by (simp add: play_def Let_def)
  ultimately show ?thesis by (rule tick_inv)
qed

lemma fire_inv:
  assumes "transport_inv w" "fire h w = Some r"
  shows "transport_inv (out_value r)"
proof (cases "h \<in> set (timers w)")
  case False
  with assms(2) have "r = Normal w" by (simp add: fire_def)
  with assms(1) show ?thesis by simp
next
  case True
  with assms(1) have to: "timeout (smp w) = Some h"
    by (auto simp: transport_inv_def)
  with assms(1) have "playing (smp w)" "set (timers w) \<subseteq> {h}"
    by (auto simp: transport_inv_def)
  moreover from \<open>set (timers w) \<subseteq> {h}\<close> have "removeAll h (timers w) = []"
    by (rule removeAll_single)
  ultimately have "tick_pre (w\<lparr>timers := removeAll h (timers w)\<rparr>)"
    using assms(1) by (simp add: tick_pre_def transport_inv_def)
  moreover have "tick (w\<lparr>timers := removeAll h (timers w)\<rparr>) = Some r"
    using assms(2) True by (simp add: fire_def)
  ultimately show ?thesis by (rule tick_inv)
qed

lemma toggle_inv: "transport_inv w \<Longrightarrow> toggle w = Some r \<Longrightarrow> transport_inv (out_value r)"
  by (auto simp: toggle_def dest: play_inv stop_inv split: if_splits)

lemma setNote_inv: "transport_inv w \<Longrightarrow> transport_inv (out_value (setNote row col v w))"
  by (auto simp: setNote_def transport_inv_def split: sum.splits)

lemma load_inv:
  "transport_inv w \<Longrightarrow> event_ok ok (EvLoad d) \<Longrightarrow> transport_inv (out_value (load d w))"
  using stop_inv [of w]
  by (cases d rule: load_data.exhaust) (auto simp: load_def transport_inv_def DEMO_REF_def Let_def split: option.splits)

lemma reset_inv: "transport_inv w \<Longrightarrow> transport_inv (reset w)"
  using stop_inv [of w] by (auto simp: reset_def transport_inv_def NULL_REF_def Let_def)

lemma step_inv:
  "transport_inv w \<Longrightarrow> event_ok ok e \<Longrightarrow> step e w = Some w' \<Longrightarrow> transport_inv w'"
  by (cases e) (auto simp: setNote_inv reset_inv load_inv dest: toggle_inv fire_inv,
                 auto simp: transport_inv_def)

lemma init_inv: "transport_inv (init_world rootName now)"
  by (simp add: transport_inv_def init_world_def Sampler_def TRACKS_def DEMO_REF_def)

lemma reach_inv: "reach ok w \<Longrightarrow> transport_inv w"
proof (induction rule: reach.induct)
  case (start rootName now)
  show ?case by (rule init_inv)
next
  case (event w e w')
  then show ?case by (blast intro: step_inv)
next
  case (wait w d)
  then show ?case by (simp add: transport_inv_def)
qed

subsection \<open>Liveness of the transport\<close>

lemma live_cur_six: "live_inv w \<Longrightarrow> six (cur_beat w)"
  by (auto simp: live_inv_def transport_inv_def cur_beat_def list_all_length)

lemma tick_six:
  assumes "six (cur_beat w)" "tick w = Some r"
  shows "\<exists>s' outs. frame_weak (smp w) s' \<and> r = Normal (set_timeout (w\<lparr>smp := s', outputs := outputs w @ outs\<rparr>))"
proof -
  let ?s = "smp w"
  let ?st = "js_num (startTime ?s)"
  obtain r' where r': "tick_loop (cur_beat w) (kit ?s) ?st (clock w - ?st) ?s [] = Some r'"
    using assms(2) by (cases "tick_loop (cur_beat w) (kit ?s) ?st (clock w - ?st) ?s []")
      (auto simp: tick_def Let_def)
  obtain s' o' where x: "r' = Normal (s', o')" "frame_weak ?s s'"
    using tick_loop_frame [OF r'] assms(1) by (auto simp: six_def)
  with r' assms(2) show ?thesis by (auto simp: tick_def Let_def)
qed

lemma tick_six_live:
  assumes "six (cur_beat w)" "tick w = Some r" "playing (smp w)" "timers w = []"
  shows "playing (smp (out_value r)) \<and> (\<exists>h. timeout (smp (out_value r)) = Some h \<and> timers (out_value r) = [h])
    \<and> heap (out_value r) = heap w"
  using tick_six [OF assms(1,2)] assms(3,4) by (auto simp: frame_weak_def)

lemma live_toggle:
  assumes "live_inv w" "toggle w = Some r"
  shows "playing (smp (out_value r)) \<longrightarrow> (\<exists>h. timeout (smp (out_value r)) = Some h \<and> timers (out_value r) = [h])"
    "heap (out_value r) = heap w"
proof -
  have t: "transport_inv w" using assms(1) by (simp add: live_inv_def)
  have "(playing (smp (out_value r)) \<longrightarrow> (\<exists>h. timeout (smp (out_value r)) = Some h \<and> timers (out_value r) = [h]))
      \<and> heap (out_value r) = heap w"
  proof (cases "playing (smp w)")
    case True
    with assms(2) stop_inv [OF t] show ?thesis by (auto simp: toggle_def)
  next
    case False
    let ?w2 = "(stop w)\<lparr>smp := (smp (stop w))\<lparr>playing := True, startTime := Some (clock (stop w) + 0.005),
      noteTime := 0.0\<rparr>\<rparr>"
    have "tick ?w2 = Some r" using assms(2) False by (simp add: toggle_def play_def Let_def)
    moreover have "six (cur_beat ?w2)" using live_cur_six [OF assms(1)] by (simp add: cur_beat_def)
    ultimately show ?thesis using tick_six_live [of ?w2 r] stop_inv [OF t] by simp
  qed
  then show "playing (smp (out_value r)) \<longrightarrow> (\<exists>h. timeout (smp (out_value r)) = Some h \<and> timers (out_value r) = [h])"
    "heap (out_value r) = heap w" by blast+
qed

lemma live_fire:
  assumes "live_inv w" "fire h w = Some r"
  shows "playing (smp (out_value r)) \<longrightarrow> (\<exists>h. timeout (smp (out_value r)) = Some h \<and> timers (out_value r) = [h])"
    "heap (out_value r) = heap w"
proof -
  have "(playing (smp (out_value r)) \<longrightarrow> (\<exists>h. timeout (smp (out_value r)) = Some h \<and> timers (out_value r) = [h]))
      \<and> heap (out_value r) = heap w"
  proof (cases "h \<in> set (timers w)")
    case False
    with assms show ?thesis by (auto simp: fire_def live_inv_def)
  next
    case True
    with assms(1) have "playing (smp w)" "timers w = [h]"
      by (auto simp: live_inv_def transport_inv_def)
    moreover have "tick (w\<lparr>timers := removeAll h (timers w)\<rparr>) = Some r"
      using assms(2) True by (simp add: fire_def)
    moreover have "six (cur_beat (w\<lparr>timers := removeAll h (timers w)\<rparr>))"
      using live_cur_six [OF assms(1)] by (simp add: cur_beat_def)
    ultimately show ?thesis using tick_six_live [of "w\<lparr>timers := removeAll h (timers w)\<rparr>" r] by simp
  qed
  then show "playing (smp (out_value r)) \<longrightarrow> (\<exists>h. timeout (smp (out_value r)) = Some h \<and> timers (out_value r) = [h])"
    "heap (out_value r) = heap w" by blast+
qed

lemma live_setNote:
  assumes "live_inv w"
  shows "live_inv (out_value (setNote row col v w))"
proof (cases "setNote_beat (cur_beat w) row col v")
  case (Inl e)
  with assms show ?thesis by (simp add: setNote_def)
next
  case (Inr b')
  have "six b'" using setNote_beat_frame [OF Inr] live_cur_six [OF assms] by (simp add: six_def)
  with Inr assms setNote_inv [of w row col v] show ?thesis
    by (auto simp: setNote_def live_inv_def list_all_update)
qed

lemma live_load:
  assumes "live_inv w" "event_ok six (EvLoad d)"
  shows "live_inv (out_value (load d w))"
proof -
  have t: "transport_inv w" using assms(1) by (simp add: live_inv_def)
  have "transport_inv (out_value (load d w))" by (rule load_inv [OF t assms(2)])
  moreover have "\<not> playing (smp (out_value (load d w)))"
    using stop_inv [OF t] by (cases d rule: load_data.exhaust) (auto simp: load_def Let_def split: option.splits)
  moreover have "list_all six (heap (out_value (load d w)))"
    using assms by (cases d rule: load_data.exhaust) (auto simp: load_def Let_def live_inv_def split: option.splits)
  ultimately show ?thesis by (simp add: live_inv_def)
qed

lemma live_step:
  assumes "live_inv w" "event_ok six e" "step e w = Some w'"
  shows "live_inv w'"
proof -
  have t: "transport_inv w" "list_all six (heap w)" using assms(1) by (simp_all add: live_inv_def)
  have tw: "transport_inv w'" using step_inv [OF t(1) assms(2,3)] .
  show ?thesis
  proof (cases e)
    case EvToggle
    then obtain r where "toggle w = Some r" "w' = out_value r" using assms(3) by auto
    with live_toggle [OF assms(1)] tw t show ?thesis by (simp add: live_inv_def)
  next
    case (EvFire h)
    then obtain r where "fire h w = Some r" "w' = out_value r" using assms(3) by auto
    with live_fire [OF assms(1)] tw t show ?thesis by (simp add: live_inv_def)
  next
    case (EvSetNote row col v)
    with assms live_setNote show ?thesis by auto
  next
    case (EvLoad d)
    with assms live_load show ?thesis by auto
  next
    case EvReset
    with assms(3) tw t stop_inv [OF t(1)] show ?thesis by (auto simp: live_inv_def reset_def Let_def)
  next
    case (EvKitLoaded fetch)
    with assms(1,3) tw show ?thesis by (auto simp: live_inv_def)
  qed
qed

lemma reach_live: "reach six w \<Longrightarrow> live_inv w"
proof (induction rule: reach.induct)
  case (start rootName now)
  show ?case
    using init_inv [of rootName now] wf_beat_six [OF wf_beat_NULL_BEAT] wf_beat_six [OF wf_beat_DEMO_BEAT]
    by (simp add: live_inv_def init_world_def Sampler_def six_def)
next
  case (event w e w')
  then show ?case by (blast intro: live_step)
next
  case (wait w d)
  then show ?case by (auto simp: live_inv_def transport_inv_def)
qed

lemma toggle_init:
  "\<exists>w'. toggle (init_world rootName now) = Some (Normal w') \<and> playing (smp w')"
proof -
  let ?w = "init_world rootName now"
  let ?w2 = "?w\<lparr>smp := (smp ?w)\<lparr>playing := True, startTime := Some (clock ?w + 0.005), noteTime := 0.0\<rparr>\<rparr>"
  have np: "\<not> playing (smp ?w)" by (simp add: init_world_def Sampler_def)
  then have "toggle ?w = tick ?w2" by (simp add: toggle_def play_def stop_def Let_def)
  moreover have "wf_beat (cur_beat ?w2)"
    using wf_beat_DEMO_BEAT by (simp add: cur_beat_def init_world_def Sampler_def DEMO_REF_def)
  ultimately show ?thesis by (auto dest!: tick_wf simp: frame_ok_def)
qed

subsection \<open>Closure of the reachable worlds under single operations\<close>

lemma reach_stop: "reach ok w \<Longrightarrow> reach ok (stop w)"
proof (cases "playing (smp w)")
  case True
  assume r: "reach ok w"
  have "step EvToggle w = Some (stop w)" using True by (simp add: toggle_def)
  then show ?thesis using reach.event [OF r, of EvToggle] by simp
next
  case False
  assume "reach ok w"
  then show ?thesis using False by (simp add: stop_def)
qed

lemma reach_setNote: "reach ok w \<Longrightarrow> reach ok (out_value (setNote row col v w))"
  using reach.event [of ok w "EvSetNote row col v"] by simp

lemma reach_load: "reach ok w \<Longrightarrow> event_ok ok (EvLoad d) \<Longrightarrow> reach ok (out_value (load d w))"
  using reach.event [of ok w "EvLoad d"] by simp

lemma reach_reset: "reach ok w \<Longrightarrow> reach ok (reset w)"
  using reach.event [of ok w EvReset] by simp

lemma reach_kit: "reach ok w \<Longrightarrow> reach ok (w\<lparr>smp := (smp w)\<lparr>kit := fst (preload fetch (kit (smp w)))\<rparr>\<rparr>)"
  using reach.event [of ok w "EvKitLoaded fetch"] by simp

lemma reach_fire: "reach ok w \<Longrightarrow> fire h w = Some r \<Longrightarrow> reach ok (out_value r)"
  using reach.event [of ok w "EvFire h"] by simp

lemma load_text_Some:
  "load (LoadText (Some b)) w =
     Normal ((stop w)\<lparr>heap := heap w @ [b], smp := (smp (stop w))\<lparr>beat := length (heap w)\<rparr>\<rparr>)"
  by (simp add: load_def Let_def)


subsection \<open>The outputs of the loop and the first pass of \<open>play\<close>\<close>

lemma wf_advanceNote_mono: "wf_beat b \<Longrightarrow> noteTime s < noteTime (advanceNote b s)"
proof -
  assume wf: "wf_beat b"
  then have "0 < tempo b" by (simp add: wf_beat_def globals_defs)
  then have "noteTime s + min_step b \<le> noteTime (advanceNote b s)" by (rule advanceNote_min_step)
  then show ?thesis using wf_beat_min_step [OF wf] by linarith
qed

lemma tick_loop_outs:
  assumes "tick_loop b k st ct s outs = Some r"
  shows "\<exists>ys. snd (out_value r) = outs @ ys \<and> (wf_beat b \<longrightarrow> (\<forall>i t. OnNote i t \<in> set ys \<longrightarrow> noteTime s \<le> t))"
proof (rule tick_loop.raw_induct [where P = "\<lambda>b k st ct s outs r. \<exists>ys. snd (out_value r) = outs @ ys \<and>
         (wf_beat b \<longrightarrow> (\<forall>i t. OnNote i t \<in> set ys \<longrightarrow> noteTime s \<le> t))", OF _ assms])
  fix f :: "beat \<Rightarrow> kit \<Rightarrow> seconds \<Rightarrow> seconds \<Rightarrow> sampler \<Rightarrow> sampler_output list
    \<Rightarrow> (sampler \<times> sampler_output list) outcome option"
  fix b k st currentTime s outs r
  assume IH: "\<And>b k st currentTime s outs r. f b k st currentTime s outs = Some r \<Longrightarrow>
      \<exists>ys. snd (out_value r) = outs @ ys \<and> (wf_beat b \<longrightarrow> (\<forall>i t. OnNote i t \<in> set ys \<longrightarrow> noteTime s \<le> t))"
  assume eq: "(if noteTime s < currentTime + 0.200 then
        (let contextPlayTime = noteTime s + st in
         case Sampler_note b k contextPlayTime (rhythmIndex s) of
           Threw e vs \<Rightarrow> Some (Threw e (s, outs @ map StartVoice vs))
         | Normal vs \<Rightarrow>
             (case draw_and_advance b s (outs @ map StartVoice vs) of
                (s', outs') \<Rightarrow> f b k st currentTime s' outs'))
      else Some (Normal (s, outs))) = Some r"
  show "\<exists>ys. snd (out_value r) = outs @ ys \<and> (wf_beat b \<longrightarrow> (\<forall>i t. OnNote i t \<in> set ys \<longrightarrow> noteTime s \<le> t))"
  proof (cases "noteTime s < currentTime + 0.2")
    case False
    with eq have "r = Normal (s, outs)" by simp
    then show ?thesis by simp
  next
    case True
    show ?thesis
    proof (cases "Sampler_note b k (noteTime s + st) (rhythmIndex s)")
      case (Threw e vs)
      from True Threw eq have "r = Threw e (s, outs @ map StartVoice vs)" by simp
      then show ?thesis by auto
    next
      case (Normal vs)
      let ?d = "draw_and_advance b s (outs @ map StartVoice vs)"
      from True Normal eq have "f b k st currentTime (fst ?d) (snd ?d) = Some r"
        by (simp add: case_prod_beta)
      from IH [OF this] obtain ys where ys: "snd (out_value r) = snd ?d @ ys"
        and on: "wf_beat b \<longrightarrow> (\<forall>i t. OnNote i t \<in> set ys \<longrightarrow> noteTime (fst ?d) \<le> t)"
        by blast
      let ?o = "if noteTime s \<noteq> lastDrawTime s then [OnNote ((rhythmIndex s + 15) mod 16) (noteTime s)] else []"
      let ?zs = "map StartVoice vs @ ?o @ ys"
      have "snd (out_value r) = outs @ ?zs" using ys by (simp add: draw_and_advance_snd)
      moreover have "noteTime s \<le> t" if wf: "wf_beat b" and m: "OnNote i t \<in> set ?zs" for i t
      proof -
        have "OnNote i t \<in> set ?o \<or> OnNote i t \<in> set ys" using m by auto
        moreover have "OnNote i t \<in> set ?o \<Longrightarrow> t = noteTime s" by (simp split: if_splits)
        moreover have "OnNote i t \<in> set ys \<Longrightarrow> noteTime (advanceNote b s) \<le> t" using on wf by simp
        ultimately show ?thesis using wf_advanceNote_mono [OF wf, of s] by fastforce
      qed
      ultimately show ?thesis by blast
    qed
  qed
qed

text \<open>
  The first pass of the loop in \<open>play\<close> from a stopped world: the voices of step 0
  at \<open>startTime = now + 0.005\<close>, then \<open>onNote(15, 0)\<close> unless \<open>lastDrawTime\<close> is
  already 0; with a well-formed beat every later \<open>onNote\<close> has a positive time.
\<close>

lemma play_first_step:
  assumes "transport_inv w" "\<not> playing (smp w)" "INSTRUMENTS \<le> length (instruments (cur_beat w))"
    "play w = Some r"
  shows "\<exists>vs ys. Sampler_note (cur_beat w) (kit (smp w)) (clock w + 0.005) 0 = Normal vs \<and>
     drop (length (outputs w)) (outputs (out_value r)) =
       map StartVoice vs @ (if lastDrawTime (smp w) \<noteq> 0 then [OnNote 15 0] else []) @ ys \<and>
     (wf_beat (cur_beat w) \<longrightarrow> (\<forall>i t. OnNote i t \<in> set ys \<longrightarrow> 0 < t)) \<and>
     startTime (smp (out_value r)) = Some (clock w + 0.005)"
proof -
  have ri: "rhythmIndex (smp w) = 0" and nt: "noteTime (smp w) = 0"
    using assms(1,2) by (simp_all add: transport_inv_def)
  let ?b = "cur_beat w" and ?k = "kit (smp w)" and ?st = "clock w + 0.005"
  let ?s0 = "(smp w)\<lparr>playing := True, startTime := Some ?st, noteTime := 0\<rparr>"
  let ?w0 = "w\<lparr>smp := ?s0\<rparr>"
  have pl: "play w = tick ?w0" using assms(2) by (simp add: play_def stop_def)
  obtain vs where vs: "Sampler_note ?b ?k ?st 0 = Normal vs"
    using Sampler_note_Normal [OF assms(3)] by blast
  let ?d = "draw_and_advance ?b ?s0 ([] @ map StartVoice vs)"
  have ct: "clock w - ?st = - 0.005" by simp
  have loop: "tick_loop ?b ?k ?st (- 0.005) ?s0 [] = tick_loop ?b ?k ?st (- 0.005) (fst ?d) (snd ?d)"
    by (rule tick_loop_continue) (use vs in \<open>simp_all add: ri\<close>)
  have d2: "snd ?d = map StartVoice vs @ (if lastDrawTime (smp w) \<noteq> 0 then [OnNote 15 0] else [])"
    by (auto simp: draw_and_advance_snd ri)
  obtain x where x0: "tick_loop ?b ?k ?st (- 0.005) ?s0 [] = Some x"
    using assms(4) pl by (cases "tick_loop ?b ?k ?st (- 0.005) ?s0 []")
      (simp_all add: tick_def Let_def js_num_def cur_beat_def)
  have x: "tick_loop ?b ?k ?st (- 0.005) (fst ?d) (snd ?d) = Some x" using x0 loop by simp
  have r: "outputs (out_value r) = outputs w @ snd (out_value x) \<and>
      startTime (smp (out_value r)) = startTime (fst (out_value x))"
    using assms(4) pl x0 by (cases x) (auto simp: tick_def Let_def js_num_def cur_beat_def)
  obtain ys where ys: "snd (out_value x) = snd ?d @ ys"
    and on: "wf_beat ?b \<longrightarrow> (\<forall>i t. OnNote i t \<in> set ys \<longrightarrow> noteTime (fst ?d) \<le> t)"
    using tick_loop_outs [OF x] by blast
  have pos: "wf_beat ?b \<Longrightarrow> 0 < noteTime (fst ?d)"
    using wf_advanceNote_mono [of ?b ?s0] by simp
  have fw: "frame_weak (fst ?d) (fst (out_value x))" using tick_loop_frame [OF x] by blast
  have "startTime (smp (out_value r)) = Some ?st"
    using fw r by (simp add: frame_weak_def)
  moreover have "\<forall>i t. wf_beat ?b \<longrightarrow> OnNote i t \<in> set ys \<longrightarrow> 0 < t"
    using on pos by fastforce
  ultimately show ?thesis using vs r ys d2 by auto
qed


lemma tick_kit: "tick w = Some r \<Longrightarrow> kit (smp (out_value r)) = kit (smp w)"
  by (drule tick_Some) (auto simp: frame_weak_def)

end
