(* ===== verification/Document.thy ===== *)
theory Document
  imports Pattern
begin

text \<open>
  The persisted document of \<^verbatim>\<open>src/DrumSampler/main.js\<close>: what
  \<open>Sampler.prototype.getData\<close> (line 358, \<open>JSON.stringify(this.beat)\<close>) writes and
  what \<open>load\<close> reads back after \<open>JSON.parse\<close>. A JSON value is the \<open>json\<close>
  datatype; the text layer (\<open>JSON.parse (JSON.stringify v) = v\<close> for finite
  numbers) belongs to the JavaScript library and is not modelled. The object a
  beat serialises to has the keys in the order of the \<open>NULL_BEAT\<close>/\<open>DEMO_BEAT\<close>
  literals (lines 57--123). Reading a parsed object as a beat looks fields up by
  name as JavaScript does; \<open>JSON.parse\<close> keeps the last of duplicate keys.
  \<open>beat_of_json\<close> is \<open>None\<close> for a value the beat record cannot represent
  (a missing field, a string tempo, a fractional cell): the model's
  \<open>load\<close> takes only representable documents.
\<close>

datatype json = JNull | JBool bool | JNum real | JStr string | JArr "json list"
  | JObj "(string \<times> json) list"

subsection \<open>Serialisation: \<open>JSON.stringify(this.beat)\<close>\<close>

definition json_str_or_null :: "string option \<Rightarrow> json" where
  "json_str_or_null s = (case s of None \<Rightarrow> JNull | Some x \<Rightarrow> JStr x)"

definition instrument_to_json :: "instrument \<Rightarrow> json" where
  "instrument_to_json i =
     JObj [(''pitch'', JNum (pitch i)), (''pattern'', JArr (map (\<lambda>c. JNum (real c)) (pattern i)))]"

definition beat_to_json :: "beat \<Rightarrow> json" where
  "beat_to_json b =
     JObj [(''kit'', json_str_or_null (beat_kit b)), (''tempo'', JNum (tempo b)),
           (''effect'', json_str_or_null (effect b)), (''effectMix'', JNum (effectMix b)),
           (''swingFactor'', JNum (swingFactor b)),
           (''instruments'', JArr (map instrument_to_json (instruments b)))]"

subsection \<open>Reading a parsed document\<close>

text \<open>\<open>obj[key]\<close> on a parsed object: the last binding of the key, \<open>undefined\<close> if none.\<close>

definition json_get :: "(string \<times> json) list \<Rightarrow> string \<Rightarrow> json option" where
  "json_get kvs k = map_of (rev kvs) k"

definition json_num :: "json option \<Rightarrow> real option" where
  "json_num j = (case j of Some (JNum r) \<Rightarrow> Some r | _ \<Rightarrow> None)"

definition json_str_opt :: "json option \<Rightarrow> string option option" where
  "json_str_opt j = (case j of Some JNull \<Rightarrow> Some None | Some (JStr s) \<Rightarrow> Some (Some s) | _ \<Rightarrow> None)"

definition json_cell :: "json \<Rightarrow> nat option" where
  "json_cell j = (case j of JNum r \<Rightarrow> if r = real (nat \<lfloor>r\<rfloor>) then Some (nat \<lfloor>r\<rfloor>) else None | _ \<Rightarrow> None)"

definition json_arr :: "json option \<Rightarrow> json list option" where
  "json_arr j = (case j of Some (JArr xs) \<Rightarrow> Some xs | _ \<Rightarrow> None)"

definition instrument_of_json :: "json \<Rightarrow> instrument option" where
  "instrument_of_json j =
     (case j of
        JObj kvs \<Rightarrow>
          (case (json_num (json_get kvs ''pitch''), json_arr (json_get kvs ''pattern'')) of
             (Some p, Some cs) \<Rightarrow> map_option (\<lambda>ns. \<lparr>pitch = p, pattern = ns\<rparr>) (those (map json_cell cs))
           | _ \<Rightarrow> None)
      | _ \<Rightarrow> None)"

definition beat_of_json :: "json \<Rightarrow> beat option" where
  "beat_of_json j =
     (case j of
        JObj kvs \<Rightarrow>
          (case (json_str_opt (json_get kvs ''kit''), json_num (json_get kvs ''tempo''),
                 json_str_opt (json_get kvs ''effect''), json_num (json_get kvs ''effectMix''),
                 json_num (json_get kvs ''swingFactor''), json_arr (json_get kvs ''instruments'')) of
             (Some k, Some t, Some e, Some m, Some s, Some is) \<Rightarrow>
               map_option (\<lambda>ins. \<lparr>beat_kit = k, tempo = t, effect = e, effectMix = m, swingFactor = s,
                                  instruments = ins\<rparr>) (those (map instrument_of_json is))
           | _ \<Rightarrow> None)
      | _ \<Rightarrow> None)"

subsection \<open>Lemmas\<close>

lemma json_cell_real [simp]: "json_cell (JNum (real n)) = Some n"
  by (simp add: json_cell_def)

lemma json_str_roundtrip [simp]: "json_str_opt (Some (json_str_or_null s)) = Some s"
  by (cases s) (simp_all add: json_str_opt_def json_str_or_null_def)

lemma those_map_Some: "(\<And>x. x \<in> set xs \<Longrightarrow> f (g x) = Some x) \<Longrightarrow> those (map (f \<circ> g) xs) = Some xs"
  by (induction xs) auto

lemma instrument_roundtrip [simp]: "instrument_of_json (instrument_to_json i) = Some i"
proof -
  have "those (map (json_cell \<circ> (\<lambda>c. JNum (real c))) (pattern i)) = Some (pattern i)"
    by (rule those_map_Some) simp
  then show ?thesis
    by (simp add: instrument_of_json_def instrument_to_json_def json_get_def json_num_def json_arr_def
        comp_def)
qed

lemma beat_json_roundtrip: "beat_of_json (beat_to_json b) = Some b"
proof -
  have "those (map (instrument_of_json \<circ> instrument_to_json) (instruments b)) = Some (instruments b)"
    by (rule those_map_Some) simp
  then show ?thesis
    by (simp add: beat_of_json_def beat_to_json_def json_get_def json_num_def json_arr_def comp_def)
qed

end
