(* ===== verification/Window.thy ===== *)
theory Window
  imports Transport Document
begin

text \<open>
  The window of \<^verbatim>\<open>src/DrumSampler/main.js\<close> (\<open>ApplicationDrumSamplerWindow\<close>,
  lines 455--684), composed with the sampler world of the Transport theory; the
  application object that calls it is the Application theory. The DOM is reduced
  to what the code computes into it:
  \<^item> \<open>buttons\<close>: the state given to each toggle button by \<open>setState\<close>, in the
    order \<open>init\<close> pushed them (\<open>None\<close>: not set, or \<open>undefined\<close>);
  \<^item> \<open>hl\<close>: the column \<open>handleHighlight\<close> marked in every row;
  \<^item> \<open>shown\<close>: the title \<open>updateTitle\<close> set, \<open>wbase\<close> being \<open>this.title\<close>;
  \<^item> \<open>has_sampler\<close>: \<open>this.sampler\<close> is not \<open>null\<close> (it is cleared by \<open>destroy\<close>);
  \<^item> \<open>disabled\<close>: the last \<open>_toggleDisabled\<close> of \<open>_inited\<close> and of its kit callback.
  The sampler's \<open>onNote\<close> option is the window's \<open>handleHighlight\<close>; a call of the
  sampler is followed by the notifications it made, in order. The toggle-button
  widget and \<open>Utils.filename\<close> are host library code: a click hands over the
  widget's new state, and \<open>Utils.filename\<close> is a parameter \<open>fname\<close>.
\<close>

record win =
  has_sampler :: bool
  buttons :: "nat option list"
  hl :: "nat option"
  wbase :: string
  shown :: string
  disabled :: bool

record page =
  pw :: world
  pwin :: win

subsection \<open>The grid built by \<open>init\<close>\<close>

text \<open>
  \<open>for (y < INSTRUMENTS) for (x < TRACKS) { buttons.push(new ToggleButton(...,
  createOnClick(i, y, x))); i++ }\<close>: button \<open>i\<close> with the row and column its click edits.
\<close>

definition grid :: "(nat \<times> nat \<times> nat) list" where
  "grid = fst (fold (\<lambda>y (bs, i). fold (\<lambda>x (bs, i). (bs @ [(i, y, x)], Suc i)) [0..<TRACKS] (bs, i))
                    [0..<INSTRUMENTS] ([], 0))"

definition init_win :: "string \<Rightarrow> win" where
  "init_win name = \<lparr>has_sampler = True, buttons = replicate (length grid) None, hl = None,
     wbase = name @ '' v0.1'', shown = name @ '' v0.1'', disabled = False\<rparr>"

subsection \<open>\<open>doDraw\<close>\<close>

text \<open>\<open>this.buttons[t].setState(v)\<close>: a missing button throws.\<close>

definition setState_at :: "nat option list \<Rightarrow> nat \<Rightarrow> nat option \<Rightarrow> nat option list outcome" where
  "setState_at bs t v =
     (if t < length bs then Normal (bs[t := v])
      else Threw (TypeError ''Cannot read property setState of undefined'') bs)"

text \<open>The inner loop \<open>for (j < TRACKS) { setState(a.pattern[j]); t++ }\<close>.\<close>

fun draw_row :: "nat list \<Rightarrow> nat list \<Rightarrow> nat option list \<Rightarrow> nat \<Rightarrow> (nat option list \<times> nat) outcome" where
  "draw_row pat [] bs t = Normal (bs, t)"
| "draw_row pat (j # js) bs t =
     (case setState_at bs t (js_get pat j) of
        Threw e bs' \<Rightarrow> Threw e (bs', t)
      | Normal bs' \<Rightarrow> draw_row pat js bs' (Suc t))"

text \<open>The outer loop: \<open>a = b.instruments[i]\<close>, and \<open>a.pattern\<close> throws when \<open>a\<close> is missing.\<close>

fun draw_rows :: "beat \<Rightarrow> nat list \<Rightarrow> nat option list \<Rightarrow> nat \<Rightarrow> (nat option list \<times> nat) outcome" where
  "draw_rows b [] bs t = Normal (bs, t)"
| "draw_rows b (i # is) bs t =
     (case js_get (instruments b) i of
        None \<Rightarrow> Threw (TypeError ''Cannot read property pattern of undefined'') (bs, t)
      | Some a \<Rightarrow>
          (case draw_row (pattern a) [0..<TRACKS] bs t of
             Threw e r \<Rightarrow> Threw e r
           | Normal (bs', t') \<Rightarrow> draw_rows b is bs' t'))"

definition doDraw :: "page \<Rightarrow> page outcome" where
  "doDraw p =
     (if \<not> has_sampler (pwin p) then Normal p
      else map_outcome (\<lambda>(bs, t). p\<lparr>pwin := (pwin p)\<lparr>buttons := bs\<rparr>\<rparr>)
             (draw_rows (cur_beat (pw p)) [0..<INSTRUMENTS] (buttons (pwin p)) 0))"

subsection \<open>Highlight and title\<close>

text \<open>\<open>handleHighlight(idx)\<close>: column \<open>j\<close> of every row is marked iff \<open>j === idx\<close>.\<close>

definition handleHighlight :: "nat option \<Rightarrow> win \<Rightarrow> win" where
  "handleHighlight idx w = w\<lparr>hl := (case idx of Some j \<Rightarrow> if j < TRACKS then Some j else None | None \<Rightarrow> None)\<rparr>"

text \<open>The window's \<open>onNote\<close> option, applied to what the sampler reported.\<close>

fun notify :: "sampler_output \<Rightarrow> win \<Rightarrow> win" where
  "notify (OnNote i t) w = handleHighlight (Some i) w"
| "notify OnNoteStopped w = handleHighlight None w"
| "notify (StartVoice v) w = w"

definition deliver :: "sampler_output list \<Rightarrow> win \<Rightarrow> win" where
  "deliver outs w = fold notify outs w"

definition updateTitle :: "(string \<Rightarrow> string) \<Rightarrow> string option \<Rightarrow> win \<Rightarrow> win" where
  "updateTitle fname filename w =
     (let name = (case filename of Some f \<Rightarrow> if f \<noteq> [] then fname f else ''New Beat'' | None \<Rightarrow> ''New Beat'')
      in w\<lparr>shown := wbase w @ '' - '' @ name\<rparr>)"

subsection \<open>Calling the sampler\<close>

text \<open>A sampler call from the window, followed by the \<open>onNote\<close> calls it made.\<close>

definition run_sampler :: "page \<Rightarrow> world \<Rightarrow> page" where
  "run_sampler p w' = \<lparr>pw = w', pwin = deliver (drop (length (outputs (pw p))) (outputs w')) (pwin p)\<rparr>"

definition onPlayPressed :: "page \<Rightarrow> page outcome option" where
  "onPlayPressed p =
     (if has_sampler (pwin p) then map_option (map_outcome (run_sampler p)) (toggle (pw p))
      else Some (Normal p))"

definition onButtonToggle :: "nat \<Rightarrow> nat \<Rightarrow> nat \<Rightarrow> page \<Rightarrow> page outcome" where
  "onButtonToggle row col state p =
     (if \<not> has_sampler (pwin p) then Normal p
      else map_outcome (run_sampler p) (setNote row col state (pw p)))"

text \<open>A click on button \<open>i\<close>: \<open>createOnClick(i, y, x)\<close> calls \<open>onButtonToggle\<close> with its row and column.\<close>

definition click :: "nat \<Rightarrow> nat \<Rightarrow> page \<Rightarrow> page outcome" where
  "click i state p = (case js_get grid i of None \<Rightarrow> Normal p | Some (idx, y, x) \<Rightarrow> onButtonToggle y x state p)"

text \<open>\<open>doNew\<close>: \<open>reset\<close>, then \<open>doDraw\<close>, then \<open>updateTitle(null)\<close>; a throw skips the rest.\<close>

definition doNew :: "(string \<Rightarrow> string) \<Rightarrow> page \<Rightarrow> page outcome" where
  "doNew fname p =
     (let p1 = (if has_sampler (pwin p) then run_sampler p (reset (pw p)) else p) in
      case doDraw p1 of
        Threw e p2 \<Rightarrow> Threw e p2
      | Normal p2 \<Rightarrow> Normal (p2\<lparr>pwin := updateTitle fname None (pwin p2)\<rparr>))"

text \<open>\<open>doOpen(filename, data)\<close>: \<open>load\<close>, then \<open>doDraw\<close>, then \<open>updateTitle\<close>.\<close>

definition doOpen :: "(string \<Rightarrow> string) \<Rightarrow> string option \<Rightarrow> load_data \<Rightarrow> page \<Rightarrow> page outcome" where
  "doOpen fname filename d p =
     (let r1 = (if has_sampler (pwin p) then map_outcome (run_sampler p) (load d (pw p)) else Normal p) in
      case r1 of
        Threw e p1 \<Rightarrow> Threw e p1
      | Normal p1 \<Rightarrow>
          (case doDraw p1 of
             Threw e p2 \<Rightarrow> Threw e p2
           | Normal p2 \<Rightarrow> Normal (p2\<lparr>pwin := updateTitle fname filename (pwin p2)\<rparr>)))"

definition doSave :: "(string \<Rightarrow> string) \<Rightarrow> string option \<Rightarrow> page \<Rightarrow> page" where
  "doSave fname filename p = p\<lparr>pwin := updateTitle fname filename (pwin p)\<rparr>"

text \<open>\<open>getData\<close> of the window and of the sampler: \<open>JSON.stringify(this.beat)\<close>, or \<open>null\<close>.\<close>

definition getData :: "page \<Rightarrow> json option" where
  "getData p = (if has_sampler (pwin p) then Some (beat_to_json (cur_beat (pw p))) else None)"

text \<open>\<open>destroy\<close>: the sampler is destroyed (stopped) and dropped, the buttons are forgotten.\<close>

definition win_destroy :: "page \<Rightarrow> page" where
  "win_destroy p =
     (if has_sampler (pwin p)
      then (let p1 = run_sampler p (destroy (pw p)) in p1\<lparr>pwin := (pwin p1)\<lparr>has_sampler := False, buttons := []\<rparr>\<rparr>)
      else p\<lparr>pwin := (pwin p)\<lparr>buttons := []\<rparr>\<rparr>)"

subsection \<open>The page as a state machine\<close>

text \<open>
  \<open>Sampler.prototype.init(callback)\<close>: the kit's preload, whose completion calls
  \<open>callback\<close>; the flag says whether it was called.
\<close>

definition sampler_init :: "(string \<Rightarrow> fetch_outcome) \<Rightarrow> world \<Rightarrow> world \<times> bool" where
  "sampler_init fetch w =
     (let r = preload fetch (kit (smp w)) in (w\<lparr>smp := (smp w)\<lparr>kit := fst r\<rparr>\<rparr>, snd r))"

text \<open>
  The page after \<open>ApplicationDrumSampler.prototype.init\<close>: a fresh world and the
  main window, whose \<open>_inited\<close> called \<open>updateTitle()\<close> and
  \<open>_toggleDisabled(true)\<close> and started the kit's preload (\<open>sampler.init\<close>).
\<close>

definition init_page :: "(string \<Rightarrow> string) \<Rightarrow> string \<Rightarrow> seconds \<Rightarrow> string \<Rightarrow> page" where
  "init_page fname rootName now name = \<lparr>pw = init_world rootName now, pwin = (updateTitle fname None (init_win name))\<lparr>disabled := True\<rparr>\<rparr>"

text \<open>
  What can happen to the page: the Play/Pause menu item, a click on button \<open>i\<close>
  handing over the widget's new state, File/New, File/Open and Load demo track
  (\<open>onOpen\<close>/\<open>doOpen\<close>), File/Save (\<open>onSave\<close>/\<open>doSave\<close>), a sampler timer firing,
  the kit's preload completing (the callback of \<open>sampler.init\<close> redraws), and the
  window being destroyed.
\<close>

datatype page_event =
    PPlay
  | PClick nat nat
  | PNew
  | POpen "string option" load_data
  | PSave "string option"
  | PFire nat
  | PKitLoaded "string \<Rightarrow> fetch_outcome"
  | PDestroy

fun page_step :: "(string \<Rightarrow> string) \<Rightarrow> page_event \<Rightarrow> page \<Rightarrow> page option" where
  "page_step fname PPlay p = map_option out_value (onPlayPressed p)"
| "page_step fname (PClick i st) p = Some (out_value (click i st p))"
| "page_step fname PNew p = Some (out_value (doNew fname p))"
| "page_step fname (POpen f d) p = Some (out_value (doOpen fname f d p))"
| "page_step fname (PSave f) p = Some (doSave fname f p)"
| "page_step fname (PFire h) p = map_option (\<lambda>r. run_sampler p (out_value r)) (fire h (pw p))"
| "page_step fname (PKitLoaded fetch) p =
     (let p1 = run_sampler p (fst (sampler_init fetch (pw p))) in
      Some (if snd (sampler_init fetch (pw p))
            then out_value (doDraw (p1\<lparr>pwin := (pwin p1)\<lparr>disabled := False\<rparr>\<rparr>)) else p1))"
| "page_step fname PDestroy p = Some (win_destroy p)"

fun page_event_ok :: "(beat \<Rightarrow> bool) \<Rightarrow> page_event \<Rightarrow> bool" where
  "page_event_ok ok (POpen f d) = event_ok ok (EvLoad d)"
| "page_event_ok ok _ = True"

inductive page_reach :: "(string \<Rightarrow> string) \<Rightarrow> (beat \<Rightarrow> bool) \<Rightarrow> page \<Rightarrow> bool" for fname ok where
  start: "page_reach fname ok (init_page fname rootName now name)"
| event: "page_reach fname ok p \<Longrightarrow> page_event_ok ok e \<Longrightarrow> page_step fname e p = Some p' \<Longrightarrow>
    page_reach fname ok p'"
| wait: "page_reach fname ok p \<Longrightarrow> 0 \<le> d \<Longrightarrow> page_reach fname ok (p\<lparr>pw := (pw p)\<lparr>clock := clock (pw p) + d\<rparr>\<rparr>)"

definition page_inv :: "(beat \<Rightarrow> bool) \<Rightarrow> page \<Rightarrow> bool" where
  "page_inv ok p \<longleftrightarrow> reach ok (pw p) \<and>
     (has_sampler (pwin p) \<longrightarrow> length (buttons (pwin p)) = INSTRUMENTS * TRACKS)"

text \<open>A run of page events, in order; \<open>None\<close> when a step does not return.\<close>

fun page_run :: "(string \<Rightarrow> string) \<Rightarrow> page_event list \<Rightarrow> page \<Rightarrow> page option" where
  "page_run fname [] p = Some p"
| "page_run fname (e # es) p = (case page_step fname e p of None \<Rightarrow> None | Some p' \<Rightarrow> page_run fname es p')"

subsection \<open>Lemmas: the grid and \<open>doDraw\<close>\<close>

lemma sampler_init_simps [simp]:
  "fst (sampler_init fetch w) = w\<lparr>smp := (smp w)\<lparr>kit := fst (preload fetch (kit (smp w)))\<rparr>\<rparr>"
  "snd (sampler_init fetch w) = snd (preload fetch (kit (smp w)))"
  by (simp_all add: sampler_init_def Let_def)

lemma grid_inner:
  "fold (\<lambda>x (bs, i). (bs @ [(i, y, x)], Suc i)) [0..<n] (bs, i) = (bs @ map (\<lambda>x. (i + x, y, x)) [0..<n], i + n)"
  by (induction n) auto

lemma grid_outer:
  "fold (\<lambda>y. fold (\<lambda>x (bs, i). (bs @ [(i, y, x)], Suc i)) [0..<m]) [0..<r] (bs, i) =
     (bs @ concat (map (\<lambda>y. map (\<lambda>x. (i + y * m + x, y, x)) [0..<m]) [0..<r]), i + r * m)"
  by (induction r) (auto simp: grid_inner algebra_simps)

lemma rows_closed:
  assumes "0 < m"
  shows "concat (map (\<lambda>y. map (\<lambda>x. (y * m + x, y, x)) [0..<m]) [0..<r]) =
    map (\<lambda>k. (k, k div m, k mod m)) [0..<r * m]"
proof (induction r)
  case 0
  then show ?case by simp
next
  case (Suc r)
  have "[0..<r * m + m] = [0..<r * m] @ [r * m..<r * m + m]"
    by (rule upt_add_eq_append) simp
  moreover have "[r * m..<r * m + m] = map (\<lambda>x. r * m + x) [0..<m]"
    using map_add_upt [of "r * m" m] by (simp add: add.commute)
  ultimately have "[0..<Suc r * m] = [0..<r * m] @ map (\<lambda>x. r * m + x) [0..<m]"
    by (simp add: add.commute)
  moreover have "map (\<lambda>x. (r * m + x, r, x)) [0..<m] = map (\<lambda>k. (k, k div m, k mod m)) (map (\<lambda>x. r * m + x) [0..<m])"
    using assms by auto
  ultimately show ?case using Suc by simp
qed

lemma grid_eq: "grid = map (\<lambda>i. (i, i div TRACKS, i mod TRACKS)) [0..<INSTRUMENTS * TRACKS]"
  using rows_closed [of TRACKS INSTRUMENTS] by (simp add: grid_def grid_outer TRACKS_def)

lemma draw_row_Normal:
  assumes "t + length js \<le> length bs"
  shows "\<exists>bs'. draw_row pat js bs t = Normal (bs', t + length js) \<and> length bs' = length bs \<and>
    (\<forall>k < length bs. bs' ! k = (if t \<le> k \<and> k < t + length js then js_get pat (js ! (k - t)) else bs ! k))"
  using assms
proof (induction js arbitrary: bs t)
  case Nil
  then show ?case by auto
next
  case (Cons j js)
  let ?bs1 = "bs[t := js_get pat j]"
  have s: "setState_at bs t (js_get pat j) = Normal ?bs1" using Cons.prems by (simp add: setState_at_def)
  obtain bs' where r: "draw_row pat js ?bs1 (Suc t) = Normal (bs', Suc t + length js)" "length bs' = length ?bs1"
    "\<forall>k < length ?bs1. bs' ! k = (if Suc t \<le> k \<and> k < Suc t + length js then js_get pat (js ! (k - Suc t)) else ?bs1 ! k)"
    using Cons.IH [of "Suc t" ?bs1] Cons.prems by auto
  have "\<forall>k < length bs. bs' ! k = (if t \<le> k \<and> k < t + length (j # js) then js_get pat ((j # js) ! (k - t)) else bs ! k)"
  proof (intro allI impI)
    fix k assume k: "k < length bs"
    show "bs' ! k = (if t \<le> k \<and> k < t + length (j # js) then js_get pat ((j # js) ! (k - t)) else bs ! k)"
      using r(3) k by (cases "k = t") (auto simp: nth_Cons' Suc_diff_Suc)
  qed
  with s r show ?case by simp
qed

lemma draw_rows_Normal:
  assumes "\<forall>i\<in>set is. i < length (instruments b)" "t + length is * TRACKS \<le> length bs"
  shows "\<exists>bs'. draw_rows b is bs t = Normal (bs', t + length is * TRACKS) \<and> length bs' = length bs \<and>
    (\<forall>k < length bs. bs' ! k = (if t \<le> k \<and> k < t + length is * TRACKS
       then js_get (pattern (instruments b ! (is ! ((k - t) div TRACKS)))) ((k - t) mod TRACKS) else bs ! k))"
  using assms
proof (induction "is" arbitrary: bs t)
  case Nil
  then show ?case by auto
next
  case (Cons i "is")
  let ?a = "instruments b ! i"
  have a: "js_get (instruments b) i = Some ?a" using Cons.prems(1) by (simp add: js_get_def)
  obtain bs1 where r1: "draw_row (pattern ?a) [0..<TRACKS] bs t = Normal (bs1, t + TRACKS)" "length bs1 = length bs"
    "\<forall>k < length bs. bs1 ! k = (if t \<le> k \<and> k < t + TRACKS then js_get (pattern ?a) ([0..<TRACKS] ! (k - t)) else bs ! k)"
    using draw_row_Normal [of t "[0..<TRACKS]" bs "pattern ?a"] Cons.prems(2) by auto
  obtain bs' where r2: "draw_rows b is bs1 (t + TRACKS) = Normal (bs', t + TRACKS + length is * TRACKS)"
    "length bs' = length bs1"
    "\<forall>k < length bs1. bs' ! k = (if t + TRACKS \<le> k \<and> k < t + TRACKS + length is * TRACKS
       then js_get (pattern (instruments b ! (is ! ((k - (t + TRACKS)) div TRACKS)))) ((k - (t + TRACKS)) mod TRACKS)
       else bs1 ! k)"
    using Cons.IH [where bs = bs1 and t = "t + TRACKS"] Cons.prems r1(2) by (auto simp: algebra_simps)
  have pos: "0 < TRACKS" by (simp add: TRACKS_def)
  have "\<forall>k < length bs. bs' ! k = (if t \<le> k \<and> k < t + length (i # is) * TRACKS
       then js_get (pattern (instruments b ! ((i # is) ! ((k - t) div TRACKS)))) ((k - t) mod TRACKS) else bs ! k)"
  proof (intro allI impI)
    fix k assume k: "k < length bs"
    show "bs' ! k = (if t \<le> k \<and> k < t + length (i # is) * TRACKS
       then js_get (pattern (instruments b ! ((i # is) ! ((k - t) div TRACKS)))) ((k - t) mod TRACKS) else bs ! k)"
    proof (cases "t + TRACKS \<le> k")
      case True
      then have "(k - t) div TRACKS = Suc ((k - (t + TRACKS)) div TRACKS)" "(k - t) mod TRACKS = (k - (t + TRACKS)) mod TRACKS"
        using pos le_div_geq [OF pos, of "k - t"] le_mod_geq [of TRACKS "k - t"] by (simp_all add: diff_diff_left)
      with True k r1(2,3) r2(3) show ?thesis by auto
    next
      case False
      then have "(k - t) div TRACKS = 0" "(k - t) mod TRACKS = k - t" "[0..<TRACKS] ! (k - t) = k - t"
        if "t \<le> k" using that by auto
      with False k r1(2,3) r2(3) show ?thesis by auto
    qed
  qed
  with a r1(1) r2(1,2) r1(2) show ?case by (simp add: algebra_simps)
qed

lemma draw_rows_append:
  "draw_rows b (xs @ ys) bs t =
     (case draw_rows b xs bs t of Threw e r \<Rightarrow> Threw e r | Normal (bs', t') \<Rightarrow> draw_rows b ys bs' t')"
proof (induction xs arbitrary: bs t)
  case Nil
  then show ?case by simp
next
  case (Cons i xs)
  then show ?case
    by (auto split: option.splits outcome.splits prod.splits)
qed

lemma draw_rows_prefix:
  assumes "\<forall>i\<in>set xs. i < length (instruments b)" "length xs * TRACKS \<le> length bs"
  shows "\<exists>bs'. draw_rows b (xs @ ys) bs 0 = draw_rows b ys bs' (length xs * TRACKS) \<and> length bs' = length bs \<and>
    (\<forall>k < length bs. bs' ! k = (if k < length xs * TRACKS
       then js_get (pattern (instruments b ! (xs ! (k div TRACKS)))) (k mod TRACKS) else bs ! k))"
  using draw_rows_Normal [of xs b 0 bs] assms by (auto simp: draw_rows_append)

lemma doDraw_six:
  assumes "has_sampler (pwin p)" "INSTRUMENTS \<le> length (instruments (cur_beat (pw p)))"
    "length (buttons (pwin p)) = INSTRUMENTS * TRACKS"
  shows "\<exists>bs. doDraw p = Normal (p\<lparr>pwin := (pwin p)\<lparr>buttons := bs\<rparr>\<rparr>) \<and> length bs = INSTRUMENTS * TRACKS \<and>
    (\<forall>k < INSTRUMENTS * TRACKS. bs ! k = cell (cur_beat (pw p)) (k div TRACKS) (k mod TRACKS))"
proof -
  let ?b = "cur_beat (pw p)"
  obtain bs where d: "draw_rows ?b [0..<INSTRUMENTS] (buttons (pwin p)) 0 = Normal (bs, INSTRUMENTS * TRACKS)"
    "length bs = INSTRUMENTS * TRACKS"
    "\<forall>k < INSTRUMENTS * TRACKS. bs ! k = js_get (pattern (instruments ?b ! ([0..<INSTRUMENTS] ! (k div TRACKS)))) (k mod TRACKS)"
    using draw_rows_Normal [of "[0..<INSTRUMENTS]" ?b 0 "buttons (pwin p)"] assms(2,3) by auto
  have "\<forall>k < INSTRUMENTS * TRACKS. bs ! k = cell ?b (k div TRACKS) (k mod TRACKS)"
  proof (intro allI impI)
    fix k assume k: "k < INSTRUMENTS * TRACKS"
    then have r: "k div TRACKS < INSTRUMENTS" by (simp add: less_mult_imp_div_less)
    then show "bs ! k = cell ?b (k div TRACKS) (k mod TRACKS)"
      using d(3) k assms(2) by (simp add: cell_def js_get_def)
  qed
  with d(1,2) assms(1) show ?thesis by (auto simp: doDraw_def)
qed

subsection \<open>Lemmas: the page invariant\<close>

lemma notify_fields [simp]:
  "has_sampler (notify x w) = has_sampler w" "buttons (notify x w) = buttons w"
  "wbase (notify x w) = wbase w" "shown (notify x w) = shown w" "disabled (notify x w) = disabled w"
  by (cases x; simp add: handleHighlight_def)+

lemma deliver_fields [simp]:
  "has_sampler (deliver outs w) = has_sampler w" "buttons (deliver outs w) = buttons w"
  "wbase (deliver outs w) = wbase w" "shown (deliver outs w) = shown w"
  "disabled (deliver outs w) = disabled w"
  unfolding deliver_def by (induction outs arbitrary: w; simp)+

lemma run_sampler_simps [simp]:
  "pw (run_sampler p w') = w'" "has_sampler (pwin (run_sampler p w')) = has_sampler (pwin p)"
  "buttons (pwin (run_sampler p w')) = buttons (pwin p)" "shown (pwin (run_sampler p w')) = shown (pwin p)"
  "wbase (pwin (run_sampler p w')) = wbase (pwin p)" "disabled (pwin (run_sampler p w')) = disabled (pwin p)"
  by (simp_all add: run_sampler_def)

lemma draw_row_length: "length (fst (out_value (draw_row pat js bs t))) = length bs"
  by (induction pat js bs t rule: draw_row.induct) (auto simp: setState_at_def split: outcome.splits)

lemma draw_rows_length: "length (fst (out_value (draw_rows b is bs t))) = length bs"
proof (induction b "is" bs t rule: draw_rows.induct)
  case (1 b bs t)
  then show ?case by simp
next
  case (2 b i "is" bs t)
  show ?case
  proof (cases "js_get (instruments b) i")
    case None
    then show ?thesis by simp
  next
    case (Some a)
    then show ?thesis
      using 2 [OF Some] draw_row_length [of "pattern a" "[0..<TRACKS]" bs t]
      by (cases "draw_row (pattern a) [0..<TRACKS] bs t") auto
  qed
qed

lemma doDraw_frame:
  "pw (out_value (doDraw p)) = pw p \<and> has_sampler (pwin (out_value (doDraw p))) = has_sampler (pwin p) \<and>
   length (buttons (pwin (out_value (doDraw p)))) = length (buttons (pwin p))"
  using draw_rows_length [of "cur_beat (pw p)" "[0..<INSTRUMENTS]" "buttons (pwin p)" 0]
  by (cases "draw_rows (cur_beat (pw p)) [0..<INSTRUMENTS] (buttons (pwin p)) 0")
     (auto simp: doDraw_def case_prod_beta)

lemma doDraw_disabled [simp]: "disabled (pwin (out_value (doDraw p))) = disabled (pwin p)"
  by (cases "draw_rows (cur_beat (pw p)) [0..<INSTRUMENTS] (buttons (pwin p)) 0")
     (auto simp: doDraw_def case_prod_beta)

lemma doNew_frame:
  "pw (out_value (doNew fname p)) = (if has_sampler (pwin p) then reset (pw p) else pw p) \<and>
   has_sampler (pwin (out_value (doNew fname p))) = has_sampler (pwin p) \<and>
   length (buttons (pwin (out_value (doNew fname p)))) = length (buttons (pwin p))"
proof -
  let ?p1 = "if has_sampler (pwin p) then run_sampler p (reset (pw p)) else p"
  have f: "pw (out_value (doDraw ?p1)) = pw ?p1 \<and> has_sampler (pwin (out_value (doDraw ?p1))) = has_sampler (pwin ?p1) \<and>
      length (buttons (pwin (out_value (doDraw ?p1)))) = length (buttons (pwin ?p1))"
    by (rule doDraw_frame)
  show ?thesis
    using f by (cases "doDraw ?p1") (auto simp: doNew_def updateTitle_def Let_def split: if_splits)
qed

lemma doOpen_frame:
  "pw (out_value (doOpen fname f d p)) = (if has_sampler (pwin p) then out_value (load d (pw p)) else pw p) \<and>
   has_sampler (pwin (out_value (doOpen fname f d p))) = has_sampler (pwin p) \<and>
   length (buttons (pwin (out_value (doOpen fname f d p)))) = length (buttons (pwin p))"
proof (cases "has_sampler (pwin p)")
  case True
  show ?thesis
  proof (cases "load d (pw p)")
    case (Normal w1)
    let ?p1 = "run_sampler p w1"
    have f: "pw (out_value (doDraw ?p1)) = pw ?p1 \<and> has_sampler (pwin (out_value (doDraw ?p1))) = has_sampler (pwin ?p1) \<and>
        length (buttons (pwin (out_value (doDraw ?p1)))) = length (buttons (pwin ?p1))"
      by (rule doDraw_frame)
    with True Normal show ?thesis
      by (cases "doDraw ?p1") (simp_all add: doOpen_def updateTitle_def Let_def)
  next
    case (Threw e w1)
    with True show ?thesis by (simp add: doOpen_def Let_def)
  qed
next
  case False
  have f: "pw (out_value (doDraw p)) = pw p \<and> has_sampler (pwin (out_value (doDraw p))) = has_sampler (pwin p) \<and>
      length (buttons (pwin (out_value (doDraw p)))) = length (buttons (pwin p))"
    by (rule doDraw_frame)
  with False show ?thesis
    by (cases "doDraw p") (simp_all add: doOpen_def updateTitle_def Let_def)
qed

lemma page_step_inv:
  assumes "page_inv ok p" "page_event_ok ok e" "page_step fname e p = Some p'"
  shows "page_inv ok p'"
proof -
  have r: "reach ok (pw p)" and len: "has_sampler (pwin p) \<longrightarrow> length (buttons (pwin p)) = INSTRUMENTS * TRACKS"
    using assms(1) by (auto simp: page_inv_def)
  have ev: "\<And>e' w'. event_ok ok e' \<Longrightarrow> step e' (pw p) = Some w' \<Longrightarrow> reach ok w'"
    using r by (blast intro: reach.event)
  show ?thesis
  proof (cases e)
    case PPlay
    then obtain r' where "onPlayPressed p = Some r'" "p' = out_value r'" using assms(3) by auto
    then show ?thesis using r len ev [of EvToggle]
      by (cases "has_sampler (pwin p)"; cases "toggle (pw p)")
         (auto simp: onPlayPressed_def page_inv_def split: outcome.splits)
  next
    case (PClick i st)
    then show ?thesis using assms(3) r len reach_setNote [OF r]
      by (cases "js_get grid i") (auto simp: click_def onButtonToggle_def page_inv_def
         split: outcome.splits)
  next
    case PNew
    then show ?thesis using assms(3) r len reach_reset [OF r] doNew_frame [of fname p]
      by (auto simp: page_inv_def)
  next
    case (POpen f d)
    then have ok: "event_ok ok (EvLoad d)" using assms(2) by simp
    show ?thesis using POpen assms(3) r len reach_load [OF r ok] doOpen_frame [of fname f d p]
      by (auto simp: page_inv_def)
  next
    case (PSave f)
    then show ?thesis using assms(3) r len by (auto simp: doSave_def updateTitle_def page_inv_def Let_def)
  next
    case (PFire h)
    then show ?thesis using assms(3) r len reach_fire [OF r] by (auto simp: page_inv_def)
  next
    case (PKitLoaded fetch)
    let ?p0 = "run_sampler p ((pw p)\<lparr>smp := (smp (pw p))\<lparr>kit := fst (preload fetch (kit (smp (pw p))))\<rparr>\<rparr>)"
    let ?p1 = "?p0\<lparr>pwin := (pwin ?p0)\<lparr>disabled := False\<rparr>\<rparr>"
    have f: "pw (out_value (doDraw ?p1)) = pw ?p1 \<and> has_sampler (pwin (out_value (doDraw ?p1))) = has_sampler (pwin ?p1) \<and>
        length (buttons (pwin (out_value (doDraw ?p1)))) = length (buttons (pwin ?p1))"
      by (rule doDraw_frame)
    show ?thesis using PKitLoaded assms(3) r len reach_kit [OF r, of fetch] f
      by (auto simp: page_inv_def Let_def split: if_splits)
  next
    case PDestroy
    then show ?thesis using assms(3) r reach_stop [OF r]
      by (auto simp: win_destroy_def page_inv_def destroy_def Let_def split: if_splits)
  qed
qed
lemma length_grid: "length grid = INSTRUMENTS * TRACKS"
  by (simp add: grid_eq)

lemma page_reach_inv: "page_reach fname ok p \<Longrightarrow> page_inv ok p"
proof (induction rule: page_reach.induct)
  case (start rootName now name)
  show ?case
    by (simp add: page_inv_def init_page_def init_win_def updateTitle_def Let_def length_grid reach.start)
next
  case (event p e p')
  then show ?case by (blast intro: page_step_inv)
next
  case (wait p d)
  then show ?case by (auto simp: page_inv_def intro: reach.wait)
qed

lemma grid_mem: "(i, y, x) \<in> set grid \<Longrightarrow> i < INSTRUMENTS * TRACKS \<and> y = i div TRACKS \<and> x = i mod TRACKS"
  by (auto simp: grid_eq)

lemma page_buttons: "page_reach fname ok p \<Longrightarrow> has_sampler (pwin p) \<Longrightarrow> length (buttons (pwin p)) = INSTRUMENTS * TRACKS"
  using page_reach_inv by (auto simp: page_inv_def)

lemma page_world: "page_reach fname ok p \<Longrightarrow> reach ok (pw p)"
  using page_reach_inv by (auto simp: page_inv_def)

lemma page_step_kit:
  assumes "page_step fname (PKitLoaded fetch) p = Some p'"
  shows "pw p' = (pw p)\<lparr>smp := (smp (pw p))\<lparr>kit := fst (preload fetch (kit (smp (pw p))))\<rparr>\<rparr> \<and>
    has_sampler (pwin p') = has_sampler (pwin p) \<and> length (buttons (pwin p')) = length (buttons (pwin p))"
proof -
  let ?w = "(pw p)\<lparr>smp := (smp (pw p))\<lparr>kit := fst (preload fetch (kit (smp (pw p))))\<rparr>\<rparr>"
  let ?p1 = "(run_sampler p ?w)\<lparr>pwin := (pwin (run_sampler p ?w))\<lparr>disabled := False\<rparr>\<rparr>"
  have f: "pw (out_value (doDraw ?p1)) = pw ?p1 \<and> has_sampler (pwin (out_value (doDraw ?p1))) = has_sampler (pwin ?p1) \<and>
      length (buttons (pwin (out_value (doDraw ?p1)))) = length (buttons (pwin ?p1))"
    by (rule doDraw_frame)
  have p': "p' = (if snd (preload fetch (kit (smp (pw p)))) then out_value (doDraw ?p1) else run_sampler p ?w)"
    using assms by (simp add: Let_def)
  show ?thesis
  proof (cases "snd (preload fetch (kit (smp (pw p))))")
    case True
    then show ?thesis using f p' by simp
  next
    case False
    then show ?thesis using p' by simp
  qed
qed

text \<open>
  A window whose sampler was dropped by \<open>destroy\<close> leaves a quiet world: nothing
  plays and no callback is pending, whatever happens to the page afterwards.
\<close>

lemma page_step_has_sampler:
  assumes "page_step fname e p = Some p'" "e \<noteq> PDestroy"
  shows "has_sampler (pwin p') = has_sampler (pwin p)"
proof (cases e)
  case PPlay
  then show ?thesis using assms
    by (cases "has_sampler (pwin p)"; cases "toggle (pw p)")
       (auto simp: onPlayPressed_def split: outcome.splits)
next
  case (PClick i st)
  then show ?thesis using assms
    by (cases "js_get grid i") (auto simp: click_def onButtonToggle_def split: if_splits)
next
  case (PKitLoaded fetch)
  then show ?thesis using assms page_step_kit by blast
qed (use assms doNew_frame doOpen_frame in \<open>auto simp: doSave_def updateTitle_def Let_def\<close>)

lemma page_step_dead_world:
  assumes "page_step fname e p = Some p'" "\<not> has_sampler (pwin p)" "timers (pw p) = []"
  shows "timers (pw p') = [] \<and> playing (smp (pw p')) = playing (smp (pw p))"
proof (cases e)
  case PPlay
  then show ?thesis using assms by (simp add: onPlayPressed_def)
next
  case (PClick i st)
  then show ?thesis using assms
    by (cases "js_get grid i") (simp_all add: click_def onButtonToggle_def)
next
  case PNew
  then show ?thesis using assms doNew_frame [of fname p] by simp
next
  case (POpen f d)
  then show ?thesis using assms doOpen_frame [of fname f d p] by simp
next
  case (PSave f)
  then show ?thesis using assms by (auto simp: doSave_def)
next
  case (PFire h)
  then show ?thesis using assms by (auto simp: fire_def)
next
  case (PKitLoaded fetch)
  then show ?thesis using assms page_step_kit [of fname fetch p p'] by simp
next
  case PDestroy
  then show ?thesis using assms by (auto simp: win_destroy_def)
qed

lemma page_quiet:
  "page_reach fname ok p \<Longrightarrow> \<not> has_sampler (pwin p) \<Longrightarrow> timers (pw p) = [] \<and> \<not> playing (smp (pw p))"
proof (induction rule: page_reach.induct)
  case (start rootName now name)
  then show ?case by (simp add: init_page_def init_win_def updateTitle_def Let_def)
next
  case (event p e p')
  show ?case
  proof (cases "has_sampler (pwin p)")
    case True
    then have d: "e = PDestroy" using event.hyps(3) event.prems page_step_has_sampler by blast
    have "transport_inv (pw p)" using page_world [OF event.hyps(1)] by (rule reach_inv)
    then have s: "\<not> playing (smp (stop (pw p))) \<and> timers (stop (pw p)) = []" using stop_inv by blast
    have "pw p' = stop (pw p)" using event.hyps(3) True d by (auto simp: win_destroy_def destroy_def Let_def)
    then show ?thesis using s by simp
  next
    case False
    have q: "timers (pw p) = [] \<and> \<not> playing (smp (pw p))" using event.IH False by blast
    then have "timers (pw p') = [] \<and> playing (smp (pw p')) = playing (smp (pw p))"
      using page_step_dead_world [OF event.hyps(3) False] by blast
    then show ?thesis using q by simp
  qed
next
  case (wait p d)
  let ?q = "p\<lparr>pw := (pw p)\<lparr>clock := clock (pw p) + d\<rparr>\<rparr>"
  have "timers (pw ?q) = timers (pw p)" "playing (smp (pw ?q)) = playing (smp (pw p))"
    "has_sampler (pwin ?q) = has_sampler (pwin p)" by simp_all
  then show ?case using wait.IH wait.prems by simp
qed

text \<open>
  \<open>_inited\<close> disables the window until the kit's preload calls back: every event
  but a completing \<open>PKitLoaded\<close> keeps the window's disabled state.
\<close>

lemma updateTitle_disabled [simp]: "disabled (updateTitle fname f w) = disabled w"
  by (simp add: updateTitle_def Let_def)

lemma handlers_disabled:
  "disabled (pwin (out_value (doNew fname p))) = disabled (pwin p)"
  "disabled (pwin (out_value (doOpen fname f d p))) = disabled (pwin p)"
proof -
  let ?p1 = "if has_sampler (pwin p) then run_sampler p (reset (pw p)) else p"
  have "disabled (pwin (out_value (doDraw ?p1))) = disabled (pwin p)" by simp
  then show "disabled (pwin (out_value (doNew fname p))) = disabled (pwin p)"
    by (cases "doDraw ?p1") (simp_all add: doNew_def Let_def)
  show "disabled (pwin (out_value (doOpen fname f d p))) = disabled (pwin p)"
  proof (cases "has_sampler (pwin p)")
    case True
    show ?thesis
    proof (cases "load d (pw p)")
      case (Normal w1)
      have "disabled (pwin (out_value (doDraw (run_sampler p w1)))) = disabled (pwin p)" by simp
      with True Normal show ?thesis
        by (cases "doDraw (run_sampler p w1)") (simp_all add: doOpen_def Let_def)
    next
      case (Threw e w1)
      with True show ?thesis by (simp add: doOpen_def Let_def)
    qed
  next
    case False
    have "disabled (pwin (out_value (doDraw p))) = disabled (pwin p)" by simp
    with False show ?thesis by (cases "doDraw p") (simp_all add: doOpen_def Let_def)
  qed
qed

lemma page_step_disabled:
  assumes "page_step fname e p = Some p'"
    and "\<And>fetch. e = PKitLoaded fetch \<Longrightarrow> \<not> snd (preload fetch (kit (smp (pw p))))"
  shows "disabled (pwin p') = disabled (pwin p)"
proof (cases e)
  case PPlay
  then show ?thesis using assms(1)
    by (cases "has_sampler (pwin p)"; cases "toggle (pw p)") (auto simp: onPlayPressed_def)
next
  case (PClick i st)
  then show ?thesis using assms(1)
    by (cases "js_get grid i") (auto simp: click_def onButtonToggle_def split: if_splits)
next
  case PNew
  then show ?thesis using assms(1) handlers_disabled(1) [of fname p] by auto
next
  case (POpen f d)
  then show ?thesis using assms(1) handlers_disabled(2) [of fname f d p] by auto
next
  case (PSave f)
  then show ?thesis using assms(1) by (auto simp: doSave_def)
next
  case (PFire h)
  then show ?thesis using assms(1) by auto
next
  case (PKitLoaded fetch)
  then have "\<not> snd (preload fetch (kit (smp (pw p))))" using assms(2) by blast
  then show ?thesis using assms(1) PKitLoaded by (auto simp: Let_def)
next
  case PDestroy
  then show ?thesis using assms(1) by (auto simp: win_destroy_def Let_def split: if_splits)
qed

text \<open>
  Only the kit callback touches the sampler's kit, and the preload keeps its list
  of sample URLs; so whether a later preload can complete is decided by the URLs
  of \<open>new Kit\<close>.
\<close>

lemma preload_paths [simp]: "paths (fst (preload fetch k)) = paths k"
  by (simp add: preload_def case_prod_beta)

lemma toggle_kit: "toggle w = Some t \<Longrightarrow> kit (smp (out_value t)) = kit (smp w)"
  unfolding toggle_def play_def Let_def by (auto split: if_splits dest!: tick_kit)

lemma page_step_paths:
  assumes "page_step fname e p = Some p'"
  shows "paths (kit (smp (pw p'))) = paths (kit (smp (pw p)))"
proof (cases e)
  case PPlay
  show ?thesis
  proof (cases "has_sampler (pwin p)")
    case True
    then obtain t where t: "toggle (pw p) = Some t" "p' = run_sampler p (out_value t)"
      using assms PPlay by (auto simp: onPlayPressed_def)
    then show ?thesis using toggle_kit [OF t(1)] by simp
  next
    case False
    then show ?thesis using assms PPlay by (auto simp: onPlayPressed_def)
  qed
next
  case (PClick i st)
  then show ?thesis using assms
    by (cases "js_get grid i") (auto simp: click_def onButtonToggle_def setNote_def split: sum.splits)
next
  case PNew
  then show ?thesis using assms doNew_frame [of fname p] by (auto simp: reset_def Let_def)
next
  case (POpen f d)
  then show ?thesis using assms doOpen_frame [of fname f d p]
    by (auto simp: load_def Let_def split: load_data.splits option.splits)
next
  case (PSave f)
  then show ?thesis using assms by (auto simp: doSave_def)
next
  case (PFire h)
  then show ?thesis using assms by (auto simp: fire_def split: if_splits dest!: tick_kit)
next
  case (PKitLoaded fetch)
  then show ?thesis using assms page_step_kit [of fname fetch p p'] by simp
next
  case PDestroy
  then show ?thesis using assms by (auto simp: win_destroy_def destroy_def Let_def)
qed

lemma page_run_disabled:
  assumes "page_run fname es p = Some p'" "disabled (pwin p)" "paths (kit (smp (pw p))) = ps"
    "\<forall>e \<in> set es. \<forall>fetch. e = PKitLoaded fetch \<longrightarrow> (\<exists>q \<in> set ps. fetch (snd q) = NoResponse)"
  shows "disabled (pwin p')"
  using assms
proof (induction es arbitrary: p)
  case Nil
  then show ?case by simp
next
  case (Cons e es)
  obtain p1 where p1: "page_step fname e p = Some p1" "page_run fname es p1 = Some p'"
    using Cons.prems(1) by (auto split: option.splits)
  have "\<not> snd (preload fetch (kit (smp (pw p))))" if "e = PKitLoaded fetch" for fetch
    using Cons.prems(3,4) that preload_next_finished [of fetch "paths (kit (smp (pw p)))"]
    by (auto simp: preload_def case_prod_beta)
  then have "disabled (pwin p1)" using page_step_disabled [OF p1(1)] Cons.prems(2) by blast
  moreover have "paths (kit (smp (pw p1))) = ps" using page_step_paths [OF p1(1)] Cons.prems(3) by simp
  ultimately show ?case using Cons.IH [OF p1(2)] Cons.prems(4) by simp
qed

end
