(* ===== verification/Application.thy ===== *)
theory Application
  imports Window
begin

text \<open>
  The application object of \<^verbatim>\<open>src/DrumSampler/main.js\<close>
  (\<open>ApplicationDrumSampler\<close>, lines 663--735): its constructor with the
  \<open>webkitAudioContext\<close> feature check, \<open>init\<close> creating the main window,
  \<open>_onMessage\<close> destroying the application when the main window is destroyed, the
  file handlers \<open>onNew\<close>, \<open>onOpen\<close>, \<open>onSave\<close> and \<open>onGetSaveData\<close>, each guarded by
  \<open>if (this.mainWindow)\<close>, and \<open>destroy\<close>. The framework's \<open>Application\<close> base
  class is host code: its \<open>destroy\<close> destroys the application's windows, and closing
  a window runs the window's \<open>destroy\<close> and then sends the application the
  message \<open>destroyWindow\<close>. \<open>_focus()\<close> of the main window is host code and left out.
\<close>

record app =
  mainWindow :: "page option"
  dialog_mime :: string
  dialog_mimes :: "string list"
  dialog_default :: string
  app_destroyed :: bool

text \<open>The constructor: \<open>throw\<close> without \<open>window.webkitAudioContext\<close>.\<close>

definition ApplicationDrumSampler :: "bool \<Rightarrow> string list \<Rightarrow> js_error + app" where
  "ApplicationDrumSampler webkitAudioContext mimes =
     (if \<not> webkitAudioContext then Inl (Thrown ''Your browser does not support AudioContext :('')
      else Inr \<lparr>mainWindow = None, dialog_mime = ''osjs/dbeat'', dialog_mimes = mimes,
                dialog_default = ''New Beat.odbeat'', app_destroyed = False\<rparr>)"

text \<open>\<open>init\<close>: \<open>this.mainWindow = this._addWindow(new ApplicationDrumSamplerWindow(...))\<close>.\<close>

definition app_init :: "(string \<Rightarrow> string) \<Rightarrow> string \<Rightarrow> seconds \<Rightarrow> string \<Rightarrow> app \<Rightarrow> app" where
  "app_init fname rootName now name a = a\<lparr>mainWindow := Some (init_page fname rootName now name)\<rparr>"

text \<open>\<open>destroy\<close>: the base class destroys the windows; \<open>mainWindow\<close> is not cleared.\<close>

definition app_destroy :: "app \<Rightarrow> app" where
  "app_destroy a = a\<lparr>mainWindow := map_option win_destroy (mainWindow a), app_destroyed := True\<rparr>"

definition app_onMessage :: "string \<Rightarrow> string \<Rightarrow> app \<Rightarrow> app" where
  "app_onMessage obj msg a =
     (if msg = ''destroyWindow'' \<and> obj = ''ApplicationDrumSamplerWindow'' then app_destroy a else a)"

text \<open>A handler of the main window run from the application, \<open>if (this.mainWindow)\<close>.\<close>

definition on_main :: "(page \<Rightarrow> page outcome) \<Rightarrow> app \<Rightarrow> app outcome" where
  "on_main f a = (case mainWindow a of None \<Rightarrow> Normal a
     | Some p \<Rightarrow> map_outcome (\<lambda>p'. a\<lparr>mainWindow := Some p'\<rparr>) (f p))"

definition onNew :: "(string \<Rightarrow> string) \<Rightarrow> app \<Rightarrow> app outcome" where
  "onNew fname a = on_main (doNew fname) a"

definition onOpen :: "(string \<Rightarrow> string) \<Rightarrow> string option \<Rightarrow> load_data \<Rightarrow> app \<Rightarrow> app outcome" where
  "onOpen fname filename d a = on_main (doOpen fname filename d) a"

definition onSave :: "(string \<Rightarrow> string) \<Rightarrow> string option \<Rightarrow> app \<Rightarrow> app outcome" where
  "onSave fname filename a = on_main (\<lambda>p. Normal (doSave fname filename p)) a"

text \<open>What \<open>onGetSaveData\<close> hands to its callback: \<open>''\<close>, the document, or \<open>null\<close>.\<close>

datatype save_data = SaveText string | SaveJson json | SaveNull

definition onGetSaveData :: "app \<Rightarrow> save_data" where
  "onGetSaveData a = (case mainWindow a of None \<Rightarrow> SaveText ''''
     | Some p \<Rightarrow> (case getData p of None \<Rightarrow> SaveNull | Some j \<Rightarrow> SaveJson j))"

text \<open>Closing the main window: its \<open>destroy\<close>, then the message to the application.\<close>

definition close_main :: "app \<Rightarrow> app" where
  "close_main a = app_onMessage ''ApplicationDrumSamplerWindow'' ''destroyWindow''
     (a\<lparr>mainWindow := map_option win_destroy (mainWindow a)\<rparr>)"

subsection \<open>The menu bar\<close>

text \<open>
  The menu bar built by the window's \<open>init\<close>: a File item either calls
  \<open>app.action(...)\<close>, whose framework dialogs end in \<open>onNew\<close>, \<open>onOpen\<close>,
  \<open>onSave\<close> or the closing of the window, or, for Load demo track, calls the
  window's \<open>doOpen(null, DEMO_BEAT)\<close> with the shared demo object. Opening the
  Play/Pause menu calls \<open>onPlayPressed\<close>.
\<close>

datatype menu_item = MNew | MLoadDemo | MOpen | MSave | MSaveAs | MClose

datatype menu_call = AppAction string | WinEvent page_event

fun file_menu :: "menu_item \<Rightarrow> menu_call" where
  "file_menu MNew = AppAction ''new''"
| "file_menu MLoadDemo = WinEvent (POpen None (LoadObject DEMO_REF))"
| "file_menu MOpen = AppAction ''open''"
| "file_menu MSave = AppAction ''save''"
| "file_menu MSaveAs = AppAction ''saveas''"
| "file_menu MClose = AppAction ''close''"

definition onMenuOpen :: "string \<Rightarrow> page_event option" where
  "onMenuOpen item = (if item = ''Play/Pause'' then Some PPlay else None)"

subsection \<open>The application as a state machine\<close>

text \<open>
  Events: what happens inside the main window (\<open>AWin\<close>: its menus, buttons,
  timers and kit callback), the file handlers the framework calls, a message of the
  framework, and the user closing the main window.
\<close>

datatype app_event =
    AWin page_event
  | ANew
  | AOpen "string option" load_data
  | ASave "string option"
  | AMessage string string
  | ACloseMain

fun app_step :: "(string \<Rightarrow> string) \<Rightarrow> app_event \<Rightarrow> app \<Rightarrow> app option" where
  "app_step fname (AWin e) a =
     (case mainWindow a of None \<Rightarrow> None
      | Some p \<Rightarrow> map_option (\<lambda>p'. a\<lparr>mainWindow := Some p'\<rparr>) (page_step fname e p))"
| "app_step fname ANew a = Some (out_value (onNew fname a))"
| "app_step fname (AOpen f d) a = Some (out_value (onOpen fname f d a))"
| "app_step fname (ASave f) a = Some (out_value (onSave fname f a))"
| "app_step fname (AMessage obj msg) a = Some (app_onMessage obj msg a)"
| "app_step fname ACloseMain a = Some (close_main a)"

fun app_event_ok :: "(beat \<Rightarrow> bool) \<Rightarrow> app_event \<Rightarrow> bool" where
  "app_event_ok ok (AWin e) = page_event_ok ok e"
| "app_event_ok ok (AOpen f d) = event_ok ok (EvLoad d)"
| "app_event_ok ok _ = True"

inductive app_reach :: "(string \<Rightarrow> string) \<Rightarrow> (beat \<Rightarrow> bool) \<Rightarrow> app \<Rightarrow> bool" for fname ok where
  start: "ApplicationDrumSampler True mimes = Inr a \<Longrightarrow>
    app_reach fname ok (app_init fname rootName now name a)"
| event: "app_reach fname ok a \<Longrightarrow> app_event_ok ok e \<Longrightarrow> app_step fname e a = Some a' \<Longrightarrow>
    app_reach fname ok a'"
| wait: "app_reach fname ok a \<Longrightarrow> mainWindow a = Some p \<Longrightarrow> 0 \<le> d \<Longrightarrow>
    app_reach fname ok (a\<lparr>mainWindow := Some (p\<lparr>pw := (pw p)\<lparr>clock := clock (pw p) + d\<rparr>\<rparr>)\<rparr>)"

definition app_inv :: "(string \<Rightarrow> string) \<Rightarrow> (beat \<Rightarrow> bool) \<Rightarrow> app \<Rightarrow> bool" where
  "app_inv fname ok a \<longleftrightarrow> (case mainWindow a of None \<Rightarrow> True | Some p \<Rightarrow> page_reach fname ok p)"

subsection \<open>Lemmas: the main window stays a reachable page\<close>

lemma on_main_page:
  "mainWindow (out_value (on_main f a)) = map_option (\<lambda>p. out_value (f p)) (mainWindow a)"
  by (cases "mainWindow a") (simp_all add: on_main_def)

lemma page_reach_handlers:
  assumes "page_reach fname ok p"
  shows "page_reach fname ok (out_value (doNew fname p))"
    "event_ok ok (EvLoad d) \<Longrightarrow> page_reach fname ok (out_value (doOpen fname f d p))"
    "page_reach fname ok (doSave fname f p)"
    "page_reach fname ok (win_destroy p)"
  using page_reach.event [OF assms, of PNew] page_reach.event [OF assms, of "POpen f d"]
    page_reach.event [OF assms, of "PSave f"] page_reach.event [OF assms, of PDestroy]
  by simp_all

lemma win_destroy_no_sampler [simp]: "\<not> has_sampler (pwin (win_destroy p))"
  by (simp add: win_destroy_def Let_def)

lemma close_main_simps [simp]:
  "mainWindow (close_main a) = map_option (win_destroy \<circ> win_destroy) (mainWindow a)"
  "app_destroyed (close_main a)"
  by (simp_all add: close_main_def app_onMessage_def app_destroy_def option.map_comp)

lemma app_step_inv:
  assumes "app_inv fname ok a" "app_event_ok ok e" "app_step fname e a = Some a'"
  shows "app_inv fname ok a'"
proof (cases e)
  case (AWin e')
  then show ?thesis using assms
    by (auto simp: app_inv_def intro: page_reach.event split: option.splits)
next
  case ANew
  then show ?thesis using assms page_reach_handlers(1)
    by (auto simp: app_inv_def onNew_def on_main_page split: option.splits)
next
  case (AOpen f d)
  then show ?thesis using assms page_reach_handlers(2)
    by (auto simp: app_inv_def onOpen_def on_main_page split: option.splits)
next
  case (ASave f)
  then show ?thesis using assms page_reach_handlers(3)
    by (auto simp: app_inv_def onSave_def on_main_page split: option.splits)
next
  case (AMessage obj msg)
  then show ?thesis using assms page_reach_handlers(4)
    by (auto simp: app_inv_def app_onMessage_def app_destroy_def split: option.splits if_splits)
next
  case ACloseMain
  have "page_reach fname ok (win_destroy (win_destroy p))" if "page_reach fname ok p" for p
    using page_reach_handlers(4) [OF page_reach_handlers(4) [OF that]] .
  then show ?thesis using ACloseMain assms by (auto simp: app_inv_def split: option.splits)
qed

lemma app_reach_inv: "app_reach fname ok a \<Longrightarrow> app_inv fname ok a"
proof (induction rule: app_reach.induct)
  case (start mimes a rootName now name)
  then show ?case by (simp add: app_inv_def app_init_def page_reach.start)
next
  case (event a e a')
  then show ?case using app_step_inv by blast
next
  case (wait a p d)
  then show ?case by (simp add: app_inv_def page_reach.wait)
qed

text \<open>
  \<open>mainWindow\<close> is never cleared: after the main window was closed,
  \<open>onGetSaveData\<close> asks the destroyed window, whose \<open>getData\<close> answers \<open>null\<close>.
\<close>

lemma save_data_after_close:
  "onGetSaveData (close_main a) = (case mainWindow a of None \<Rightarrow> SaveText '''' | Some p \<Rightarrow> SaveNull)"
  by (cases "mainWindow a") (simp_all add: onGetSaveData_def getData_def)

text \<open>
  Load demo track re-installs the shared \<open>DEMO_BEAT\<close> object, which is also the
  beat the window starts with and which \<open>setNote\<close> edits in place: after a click
  on the first button, loading the demo track still shows the edited cell.
\<close>

lemma load_demo_keeps_edit:
  "let p0 = init_page fname rootName now name; p1 = out_value (click 0 2 p0);
       p2 = (case file_menu MLoadDemo of WinEvent e \<Rightarrow> the (page_step fname e p1) | AppAction a \<Rightarrow> p1) in
   cell (cur_beat (pw p2)) 0 0 = Some 2 \<and> cell DEMO_BEAT 0 0 = Some 0"
proof -
  let ?p0 = "init_page fname rootName now name"
  let ?p1 = "out_value (click 0 2 ?p0)"
  have g: "js_get grid 0 = Some (0, 0, 0)" by (simp add: grid_eq js_get_def globals_defs)
  have hs: "has_sampler (pwin ?p0)" by (simp add: init_page_def init_win_def updateTitle_def Let_def)
  have w1: "pw ?p1 = out_value (setNote 0 0 2 (init_world rootName now))"
    using hs by (simp add: click_def g onButtonToggle_def init_page_def)
  have hs1: "has_sampler (pwin ?p1)" using hs by (simp add: click_def g onButtonToggle_def)
  have w2: "pw (the (page_step fname (POpen None (LoadObject DEMO_REF)) ?p1)) =
      out_value (load (LoadObject DEMO_REF) (pw ?p1))"
    using doOpen_frame [of fname None "LoadObject DEMO_REF" ?p1] hs1 by simp
  have "cell (cur_beat (out_value (load (LoadObject DEMO_REF) (out_value (setNote 0 0 2 (init_world rootName now)))))) 0 0 = Some 2"
    by (simp add: load_def stop_heap cur_beat_def setNote_def setNote_beat_def init_world_def Sampler_def
        DEMO_REF_def DEMO_BEAT_def js_get_def cell_def js_set_def Let_def)
  moreover have "cell DEMO_BEAT 0 0 = Some 0" by (simp add: cell_def DEMO_BEAT_def)
  ultimately show ?thesis using w1 w2 by (simp add: Let_def)
qed

end
