(* ===== verification/Refinement.thy ===== *)
theory Refinement
  imports Transport
begin

text \<open>
  Two abstract specifications from the specification document and the proofs that
  the model of \<^verbatim>\<open>src/DrumSampler/main.js\<close> implements them.
  \<^item> The step schedule of section 4.1: step \<open>n\<close> after a cursor at step index
    \<open>i\<close> is scheduled \<open>schedule b i n\<close> seconds later, half a beat per pair of
    steps and, for an odd count, one step lengthened (new index odd) or shortened
    by the swing. \<open>advanceNote\<close> iterated equals this closed form.
  \<^item> The transport state machine of section 4.1: \<open>STOPPED\<close> and \<open>PLAYING\<close>,
    with \<open>toggle\<close> switching, \<open>load\<close> and \<open>reset\<close> stopping and every other
    event leaving the state. \<open>abs_t\<close> maps a world to it; every step of the host
    event loop, and every run of steps, is a step of the abstract machine, for
    documents with the six instruments \<open>note\<close> reads.
\<close>

subsection \<open>The reference schedule\<close>

definition swing_step :: "beat \<Rightarrow> nat \<Rightarrow> real" where
  "swing_step b i = (0.25 + (if even i then 1 else -1) * MAX_SWING * swingFactor b) * (60 / tempo b)"

definition schedule :: "beat \<Rightarrow> nat \<Rightarrow> nat \<Rightarrow> real" where
  "schedule b i n = real (n div 2) * (30 / tempo b) + (if odd n then swing_step b i else 0)"

subsection \<open>The abstract transport\<close>

datatype tstate = STOPPED | PLAYING

fun spec_step :: "event \<Rightarrow> tstate \<Rightarrow> tstate" where
  "spec_step EvToggle STOPPED = PLAYING"
| "spec_step EvToggle PLAYING = STOPPED"
| "spec_step (EvLoad d) t = STOPPED"
| "spec_step EvReset t = STOPPED"
| "spec_step (EvFire h) t = t"
| "spec_step (EvSetNote r c v) t = t"
| "spec_step (EvKitLoaded f) t = t"

definition abs_t :: "world \<Rightarrow> tstate" where
  "abs_t w = (if playing (smp w) then PLAYING else STOPPED)"

text \<open>A run of host events; \<open>None\<close> when one of them never returns.\<close>

fun steps :: "event list \<Rightarrow> world \<Rightarrow> world option" where
  "steps [] w = Some w"
| "steps (e # es) w = (case step e w of None \<Rightarrow> None | Some w1 \<Rightarrow> steps es w1)"

fun_cases steps_ConsE: "steps (e # es) w = Some w'"

subsection \<open>Lemmas: the schedule\<close>

lemma advanceNote_pow_index_bound:
  "rhythmIndex s < TRACKS \<Longrightarrow> rhythmIndex ((advanceNote b ^^ n) s) < TRACKS"
  by (simp add: advanceNote_pow_index TRACKS_def)

subsection \<open>Lemmas: one step refines the abstract machine\<close>

lemma tick_keeps_playing:
  assumes "six (cur_beat w)" "tick w = Some r"
  shows "playing (smp (out_value r)) = playing (smp w)"
  using tick_six [OF assms] by (auto simp: frame_weak_def)

lemma step_refines:
  assumes "reach six w" "event_ok six e" "step e w = Some w'"
  shows "abs_t w' = spec_step e (abs_t w)"
proof -
  have li: "live_inv w" by (rule reach_live [OF assms(1)])
  have ti: "transport_inv w" by (rule reach_inv [OF assms(1)])
  have s6: "six (cur_beat w)" by (rule live_cur_six [OF li])
  have stp: "\<not> playing (smp (stop w))" using stop_inv [OF ti] by blast
  show ?thesis
  proof (cases e)
    case EvToggle
    show ?thesis
    proof (cases "playing (smp w)")
      case True
      with EvToggle assms(3) stp show ?thesis by (auto simp: toggle_def abs_t_def)
    next
      case False
      let ?w2 = "(stop w)\<lparr>smp := (smp (stop w))\<lparr>playing := True, startTime := Some (clock (stop w) + 0.005),
        noteTime := 0.0\<rparr>\<rparr>"
      obtain r where r: "tick ?w2 = Some r" "w' = out_value r"
        using EvToggle assms(3) False by (auto simp: toggle_def play_def Let_def)
      have "six (cur_beat ?w2)" using s6 by (simp add: cur_beat_def)
      with r show ?thesis using tick_keeps_playing [of ?w2 r] EvToggle False by (simp add: abs_t_def)
    qed
  next
    case (EvFire h)
    show ?thesis
    proof (cases "h \<in> set (timers w)")
      case True
      then have "playing (smp w)" using ti by (auto simp: transport_inv_def)
      moreover obtain r where r: "tick (w\<lparr>timers := removeAll h (timers w)\<rparr>) = Some r" "w' = out_value r"
        using EvFire assms(3) True by (auto simp: fire_def)
      moreover have "six (cur_beat (w\<lparr>timers := removeAll h (timers w)\<rparr>))" using s6 by (simp add: cur_beat_def)
      ultimately show ?thesis
        using tick_keeps_playing [of "w\<lparr>timers := removeAll h (timers w)\<rparr>" r] EvFire by (simp add: abs_t_def)
    next
      case False
      with EvFire assms(3) show ?thesis by (auto simp: fire_def abs_t_def)
    qed
  next
    case (EvSetNote row col v)
    with assms(3) show ?thesis
      by (auto simp: setNote_def abs_t_def split: sum.splits)
  next
    case (EvLoad d)
    with assms(3) stp show ?thesis
      by (cases d rule: load_data.exhaust) (auto simp: load_def abs_t_def Let_def split: option.splits)
  next
    case EvReset
    with assms(3) stp show ?thesis by (auto simp: reset_def abs_t_def Let_def)
  next
    case (EvKitLoaded f)
    with assms(3) show ?thesis by (auto simp: abs_t_def)
  qed
qed

lemma steps_reach: "reach ok w \<Longrightarrow> \<forall>e \<in> set es. event_ok ok e \<Longrightarrow> steps es w = Some w' \<Longrightarrow> reach ok w'"
proof (induction es arbitrary: w)
  case Nil
  then show ?case by simp
next
  case (Cons e es)
  obtain w1 where w1: "step e w = Some w1" "steps es w1 = Some w'"
    using Cons.prems(3) by (auto elim: steps_ConsE split: option.splits)
  have "reach ok w1" using reach.event [OF Cons.prems(1) _ w1(1)] Cons.prems(2) by simp
  then show ?case using Cons.IH Cons.prems(2) w1(2) by simp
qed

end
