(* ===== verification/Broadway.thy ===== *)
theory Broadway
  imports Prelude
begin

text \<open>
  The GTK Broadway proxy of \<^verbatim>\<open>src/Broadway/broadway.js\<close>: canvas-backed windows
  (\<open>BroadwayWindow\<close>) that forward mouse and key input to the Broadway client
  (\<open>window.GTK.inject\<close>), and the surface callbacks of \<open>createBroadwayWindow\<close>
  that the client calls to create, draw into, show, hide, move and delete the
  window of a surface. A callback finds the window of surface \<open>id\<close> by the name
  \<open>'BroadwayWindow' + id\<close> in the host window manager.
  The host window manager and \<open>Window.prototype\<close> are host library code, not
  part of the repository: the manager is a list of windows (\<open>addWindow\<close> runs
  \<open>init\<close> and appends, \<open>getWindow\<close> answers the first window of the name,
  \<open>_close\<close> removes the window), and the window methods \<open>_move\<close>, \<open>_resize\<close>,
  \<open>_minimize\<close>, \<open>_restore\<close> are the parameters of a \<open>host\<close> record; the
  lemmas hold for every host whose methods keep a window's name, surface id and
  canvas (\<open>host_ok\<close>). Mouse coordinates are integers (\<open>parseInt\<close> is then the
  identity).
\<close>

subsection \<open>Surface names\<close>

text \<open>\<open>n.toString()\<close> for a non-negative integer: its decimal digits.\<close>

fun dec :: "nat \<Rightarrow> string" where
  "dec n = (if n < 10 then [] else dec (n div 10)) @ [char_of (48 + n mod 10)]"

text \<open>\<open>'BroadwayWindow' + id\<close>: the window name of surface \<open>id\<close>.\<close>

declare dec.simps [simp del]

text \<open>Reading decimal digits back (\<open>parseInt(s, 10)\<close> on a digit string).\<close>

definition nat_of_dec :: "string \<Rightarrow> nat" where
  "nat_of_dec cs = foldl (\<lambda>n c. 10 * n + (of_char c - 48)) 0 cs"

definition surface_name :: "nat \<Rightarrow> string" where
  "surface_name sid = ''BroadwayWindow'' @ dec sid"

subsection \<open>The window\<close>

record props =
  allow_resize :: bool
  allow_minimize :: bool
  allow_maximize :: bool
  allow_session :: bool
  key_capture :: bool

text \<open>A canvas element: the surface whose window created it, and its size.\<close>

record canvas =
  cowner :: nat
  cwidth :: int
  cheight :: int

record bwin =
  wname :: string
  dimension :: "int \<times> int"
  position :: "int \<times> int"
  title :: string
  properties :: props
  broadwayId :: nat
  bcanvas :: canvas
  minimized :: bool

text \<open>The constructor; a new canvas element is 300 by 150.\<close>

definition BroadwayWindow :: "nat \<Rightarrow> int \<Rightarrow> int \<Rightarrow> int \<Rightarrow> int \<Rightarrow> bwin" where
  "BroadwayWindow sid x y w h =
     \<lparr>wname = surface_name sid, dimension = (w, h), position = (x, y),
      title = ''Broadway Window '' @ dec sid,
      properties = \<lparr>allow_resize = False, allow_minimize = False, allow_maximize = False,
                    allow_session = False, key_capture = True\<rparr>,
      broadwayId = sid, bcanvas = \<lparr>cowner = sid, cwidth = 300, cheight = 150\<rparr>,
      minimized = False\<rparr>"

text \<open>\<open>init\<close>: the canvas takes the window's size (the listeners are \<open>dom_listener\<close>).\<close>

definition bw_init :: "bwin \<Rightarrow> bwin" where
  "bw_init win = win\<lparr>bcanvas := (bcanvas win)\<lparr>cwidth := fst (dimension win),
                                                cheight := snd (dimension win)\<rparr>\<rparr>"

text \<open>A call of \<open>window.GTK.inject(id, type, ev, pos)\<close>; key events carry no position.\<close>

datatype injection = Inject nat string "(int \<times> int \<times> int \<times> int) option"

definition getMousePos :: "bwin \<Rightarrow> int \<Rightarrow> int \<Rightarrow> int \<times> int" where
  "getMousePos win pageX pageY = (pageX - fst (position win), pageY - snd (position win) - 26)"

definition inject :: "bwin \<Rightarrow> string \<Rightarrow> int \<Rightarrow> int \<Rightarrow> injection" where
  "inject win type pageX pageY =
     (let pos = getMousePos win pageX pageY
      in Inject (broadwayId win) type (Some (fst (position win), snd (position win), fst pos, snd pos)))"

datatype dom_event = MouseMove | MouseDown | MouseUp | DOMMouseScroll | MouseWheel

text \<open>The canvas listeners of \<open>init\<close> (the \<open>click\<close> listener is commented out).\<close>

fun dom_listener :: "dom_event \<Rightarrow> string" where
  "dom_listener MouseMove = ''mousemove''"
| "dom_listener MouseDown = ''mousedown''"
| "dom_listener MouseUp = ''mouseup''"
| "dom_listener DOMMouseScroll = ''mousewheel''"
| "dom_listener MouseWheel = ''mousewheel''"

definition onKeyEvent :: "bwin \<Rightarrow> string \<Rightarrow> injection" where
  "onKeyEvent win type = Inject (broadwayId win) type None"

text \<open>
  \<open>_focus\<close> and \<open>_blur\<close>: \<open>base\<close> is the answer of the host's method; the module
  variable \<open>_WIN\<close> holds the surface id of the focused proxy window.
\<close>

definition bw_focus :: "bool \<Rightarrow> bwin \<Rightarrow> nat option \<Rightarrow> bool \<times> nat option" where
  "bw_focus base win cur = (if \<not> base then (False, cur) else (True, Some (broadwayId win)))"

definition bw_blur :: "bool \<Rightarrow> nat option \<Rightarrow> bool \<times> nat option" where
  "bw_blur base cur = (if \<not> base then (False, cur) else (True, None))"

subsection \<open>The host window manager\<close>

record host =
  h_move :: "int \<Rightarrow> int \<Rightarrow> bwin \<Rightarrow> bwin"
  h_resize :: "int \<Rightarrow> int \<Rightarrow> bwin \<Rightarrow> bwin"
  h_minimize :: "bwin \<Rightarrow> bwin"
  h_restore :: "bwin \<Rightarrow> bwin"

text \<open>What the lemmas need of a host method: it keeps the window's name, surface id and canvas.\<close>

definition wkey :: "bwin \<Rightarrow> string \<times> nat \<times> canvas" where
  "wkey v = (wname v, broadwayId v, bcanvas v)"

definition keeps :: "bwin \<Rightarrow> bwin \<Rightarrow> bool" where
  "keeps v' v \<longleftrightarrow> wkey v' = wkey v"

definition host_ok :: "host \<Rightarrow> bool" where
  "host_ok H \<longleftrightarrow> (\<forall>x y v. keeps (h_move H x y v) v) \<and> (\<forall>x y v. keeps (h_resize H x y v) v) \<and>
     (\<forall>v. keeps (h_minimize H v) v) \<and> (\<forall>v. keeps (h_restore H v) v)"

text \<open>A host whose methods just set the window's fields.\<close>

definition std_host :: host where
  "std_host = \<lparr>h_move = (\<lambda>x y v. v\<lparr>position := (x, y)\<rparr>), h_resize = (\<lambda>w h v. v\<lparr>dimension := (w, h)\<rparr>),
               h_minimize = (\<lambda>v. v\<lparr>minimized := True\<rparr>), h_restore = (\<lambda>v. v\<lparr>minimized := False\<rparr>)\<rparr>"

definition getWindow :: "bwin list \<Rightarrow> string \<Rightarrow> bwin option" where
  "getWindow ws n = find (\<lambda>v. wname v = n) ws"

text \<open>A method call on the window \<open>getWindow\<close> answers, which the list holds by reference.\<close>

fun upd_first :: "string \<Rightarrow> (bwin \<Rightarrow> bwin) \<Rightarrow> bwin list \<Rightarrow> bwin list" where
  "upd_first n f [] = []"
| "upd_first n f (v # vs) = (if wname v = n then f v # vs else v # upd_first n f vs)"

subsection \<open>The surface callbacks\<close>

datatype gtk_call =
    FlushSurface nat
  | DeleteSurface nat
  | ShowSurface nat
  | HideSurface nat
  | MoveSurface nat bool int int bool int int
  | CreateSurface nat int int int int

text \<open>
  The callbacks passed to \<open>window.GTK.connect\<close>, on the manager \<open>wm\<close> that
  \<open>createBroadwayWindow\<close> read once (\<open>None\<close>: \<open>API.getWMInstance()\<close> was
  \<open>null\<close>). The result is the manager after the call and the canvas returned.
\<close>

fun gtk_callback :: "host \<Rightarrow> gtk_call \<Rightarrow> bwin list option \<Rightarrow> (bwin list option \<times> canvas option) outcome" where
  "gtk_callback H (FlushSurface sid) wm =
     (case wm of None \<Rightarrow> Normal (wm, None)
      | Some ws \<Rightarrow> Normal (wm, map_option bcanvas (getWindow ws (surface_name sid))))"
| "gtk_callback H (DeleteSurface sid) wm =
     (case wm of None \<Rightarrow> Normal (wm, None)
      | Some ws \<Rightarrow> (case getWindow ws (surface_name sid) of None \<Rightarrow> Normal (wm, None)
                   | Some win \<Rightarrow> Normal (Some (remove1 win ws), None)))"
| "gtk_callback H (ShowSurface sid) wm =
     (case wm of None \<Rightarrow> Normal (wm, None)
      | Some ws \<Rightarrow> Normal (Some (upd_first (surface_name sid) (h_restore H) ws), None))"
| "gtk_callback H (HideSurface sid) wm =
     (case wm of None \<Rightarrow> Normal (wm, None)
      | Some ws \<Rightarrow> Normal (Some (upd_first (surface_name sid) (h_minimize H) ws), None))"
| "gtk_callback H (MoveSurface sid has_pos x y has_size w h) wm =
     (case wm of None \<Rightarrow> Normal (wm, None)
      | Some ws \<Rightarrow> Normal (Some (upd_first (surface_name sid)
          (\<lambda>win. let win1 = (if has_pos then h_move H x y win else win)
                 in if has_size then h_resize H w h win1 else win1) ws), None))"
| "gtk_callback H (CreateSurface sid x y w h) wm =
     (case wm of None \<Rightarrow> Threw (TypeError ''Cannot read property addWindow of null'') (wm, None)
      | Some ws \<Rightarrow> (let win = bw_init (BroadwayWindow sid x y w h)
                   in Normal (Some (ws @ [win]), Some (bcanvas win))))"

subsection \<open>The proxy as a state machine\<close>

record bstate =
  wm :: "bwin list option"
  cur :: "nat option"
  sent :: "injection list"

text \<open>
  Events: a client callback, and the DOM and window-manager events delivered to
  the proxy window of a surface (\<open>None\<close> when no such window is open).
\<close>

datatype bevent =
    Gtk gtk_call
  | Dom nat dom_event int int
  | Key nat string
  | Focus nat bool
  | Blur nat bool

definition on_window :: "bstate \<Rightarrow> nat \<Rightarrow> bwin option" where
  "on_window s sid = (case wm s of None \<Rightarrow> None | Some ws \<Rightarrow> getWindow ws (surface_name sid))"

fun bw_step :: "host \<Rightarrow> bevent \<Rightarrow> bstate \<Rightarrow> bstate outcome option" where
  "bw_step H (Gtk c) s = Some (map_outcome (\<lambda>r. s\<lparr>wm := fst r\<rparr>) (gtk_callback H c (wm s)))"
| "bw_step H (Dom sid e px py) s = map_option (\<lambda>win. Normal (s\<lparr>sent := sent s @ [inject win (dom_listener e) px py]\<rparr>)) (on_window s sid)"
| "bw_step H (Key sid t) s = map_option (\<lambda>win. Normal (s\<lparr>sent := sent s @ [onKeyEvent win t]\<rparr>)) (on_window s sid)"
| "bw_step H (Focus sid base) s = map_option (\<lambda>win. Normal (s\<lparr>cur := snd (bw_focus base win (cur s))\<rparr>)) (on_window s sid)"
| "bw_step H (Blur sid base) s = map_option (\<lambda>win. Normal (s\<lparr>cur := snd (bw_blur base (cur s))\<rparr>)) (on_window s sid)"

text \<open>
  A Broadway server creates a surface only under an id that has no open window;
  a run starts from an empty manager.
\<close>

fun bevent_ok :: "bstate \<Rightarrow> bevent \<Rightarrow> bool" where
  "bevent_ok s (Gtk (CreateSurface sid x y w h)) = (on_window s sid = None)"
| "bevent_ok s e = True"

inductive bw_reach :: "host \<Rightarrow> bstate \<Rightarrow> bool" for H where
  start: "bw_reach H \<lparr>wm = Some [], cur = None, sent = []\<rparr>"
| event: "bw_reach H s \<Longrightarrow> bevent_ok s e \<Longrightarrow> bw_step H e s = Some r \<Longrightarrow> bw_reach H (out_value r)"

definition wm_inv :: "bwin list \<Rightarrow> bool" where
  "wm_inv ws \<longleftrightarrow> distinct (map broadwayId ws) \<and>
     (\<forall>v \<in> set ws. wname v = surface_name (broadwayId v) \<and> cowner (bcanvas v) = broadwayId v)"

definition bw_inv :: "bstate \<Rightarrow> bool" where
  "bw_inv s \<longleftrightarrow> (case wm s of None \<Rightarrow> True | Some ws \<Rightarrow> wm_inv ws)"

subsection \<open>Lemmas: surface names\<close>

lemma dec_lt10: "n < 10 \<Longrightarrow> dec n = [char_of (48 + n)]"
  by (subst dec.simps) simp

lemma dec_ge10: "\<not> n < 10 \<Longrightarrow> dec n = dec (n div 10) @ [char_of (48 + n mod 10)]"
  by (subst dec.simps) simp

lemma digit_of_char: "(d::nat) < 10 \<Longrightarrow> of_char (char_of (48 + d) :: char) - 48 = d"
  by (simp add: of_char_of)

lemma nat_of_dec_snoc: "nat_of_dec (cs @ [c]) = 10 * nat_of_dec cs + (of_char c - 48)"
  by (simp add: nat_of_dec_def)

lemma dec_roundtrip [simp]: "nat_of_dec (dec n) = n"
proof (induction n rule: dec.induct)
  case (1 n)
  show ?case
  proof (cases "n < 10")
    case True
    then show ?thesis by (simp add: dec_lt10 nat_of_dec_def digit_of_char)
  next
    case False
    then have "nat_of_dec (dec n) = 10 * (n div 10) + n mod 10"
      using "1.IH" by (simp add: dec_ge10 nat_of_dec_snoc digit_of_char)
    then show ?thesis by simp
  qed
qed

lemma dec_inj: "dec m = dec n \<longleftrightarrow> m = n"
  by (metis dec_roundtrip)

lemma surface_name_inj [simp]: "surface_name m = surface_name n \<longleftrightarrow> m = n"
  by (simp add: surface_name_def dec_inj)

subsection \<open>Lemmas: the registry invariant\<close>

lemma new_window_simps [simp]:
  "wname (bw_init (BroadwayWindow sid x y w h)) = surface_name sid"
  "broadwayId (bw_init (BroadwayWindow sid x y w h)) = sid"
  "bcanvas (bw_init (BroadwayWindow sid x y w h)) = \<lparr>cowner = sid, cwidth = w, cheight = h\<rparr>"
  by (simp_all add: bw_init_def BroadwayWindow_def)

lemma wm_inv_wkey:
  assumes "map wkey ws' = map wkey ws"
  shows "wm_inv ws' = wm_inv ws"
proof -
  have e: "fst \<circ> snd \<circ> wkey = broadwayId" by (simp add: fun_eq_iff wkey_def)
  have "map broadwayId ws' = map broadwayId ws"
    using arg_cong [OF assms, of "map (fst \<circ> snd)"] by (simp only: map_map e)
  moreover have "(\<forall>v \<in> set ws'. P (wkey v)) = (\<forall>v \<in> set ws. P (wkey v))" for P
    using arg_cong [OF assms, of set] by (metis (mono_tags, lifting) imageE image_eqI set_map)
  note this [of "\<lambda>(n, i, c). n = surface_name i \<and> cowner c = i"]
  ultimately show ?thesis by (simp add: wm_inv_def wkey_def)
qed

lemma upd_first_wkey: "(\<And>v. keeps (f v) v) \<Longrightarrow> map wkey (upd_first n f ws) = map wkey ws"
  by (induction ws) (auto simp: keeps_def)

lemma wm_inv_upd: "(\<And>v. keeps (f v) v) \<Longrightarrow> wm_inv (upd_first n f ws) = wm_inv ws"
  by (rule wm_inv_wkey [OF upd_first_wkey])

lemma distinct_map_remove1: "distinct (map f xs) \<Longrightarrow> distinct (map f (remove1 x xs))"
  by (induction xs) (auto dest: subsetD [OF set_remove1_subset])

lemma wm_inv_remove1: "wm_inv ws \<Longrightarrow> wm_inv (remove1 v ws)"
  unfolding wm_inv_def by (auto simp: distinct_map_remove1 dest: subsetD [OF set_remove1_subset])

lemma getWindow_by_id:
  "wm_inv ws \<Longrightarrow> getWindow ws (surface_name sid) = find (\<lambda>v. broadwayId v = sid) ws"
  unfolding getWindow_def wm_inv_def by (rule find_cong) auto

lemma wm_inv_create:
  assumes "wm_inv ws" "getWindow ws (surface_name sid) = None"
  shows "wm_inv (ws @ [bw_init (BroadwayWindow sid x y w h)])"
proof -
  have "\<forall>v \<in> set ws. broadwayId v \<noteq> sid"
    using assms getWindow_by_id [OF assms(1)] by (simp add: find_None_iff)
  then show ?thesis
    using assms(1) by (auto simp: wm_inv_def bw_init_def BroadwayWindow_def)
qed

lemma host_ok_keeps:
  assumes "host_ok H"
  shows "keeps (h_restore H v) v" "keeps (h_minimize H v) v"
    "keeps (let v1 = if p then h_move H x y v else v in if q then h_resize H w h v1 else v1) v"
  using assms by (auto simp: host_ok_def keeps_def Let_def)

lemma gtk_callback_inv:
  assumes "host_ok H" "wm_inv ws" "bevent_ok s (Gtk c)" "wm s = Some ws"
    and "fst (out_value (gtk_callback H c (Some ws))) = Some ws'"
  shows "wm_inv ws'"
proof (cases c)
  case (CreateSurface sid x y w h)
  then show ?thesis using assms by (auto simp: on_window_def Let_def intro: wm_inv_create)
next
  case (DeleteSurface sid)
  then show ?thesis using assms by (auto simp: wm_inv_remove1 split: option.splits)
next
  case (ShowSurface sid)
  then show ?thesis using assms by (auto simp: wm_inv_upd [OF host_ok_keeps(1) [OF assms(1)]])
next
  case (HideSurface sid)
  then show ?thesis using assms by (auto simp: wm_inv_upd [OF host_ok_keeps(2) [OF assms(1)]])
next
  case (MoveSurface sid p x y q w h)
  then show ?thesis using assms by (auto simp: wm_inv_upd [OF host_ok_keeps(3) [OF assms(1)]])
qed (use assms in simp)

lemma bw_step_inv:
  assumes "host_ok H" "bw_inv s" "bevent_ok s e" "bw_step H e s = Some r"
  shows "bw_inv (out_value r)"
proof (cases e)
  case (Gtk c)
  show ?thesis
  proof (cases "wm s")
    case None
    then show ?thesis using assms Gtk by (cases c) (auto simp: bw_inv_def Let_def)
  next
    case (Some ws)
    then show ?thesis using assms Gtk gtk_callback_inv [OF assms(1) _ _ Some]
      by (auto simp: bw_inv_def split: option.splits)
  qed
qed (use assms in \<open>auto simp: bw_inv_def\<close>)

lemma bw_reach_inv:
  assumes "host_ok H"
  shows "bw_reach H s \<Longrightarrow> bw_inv s"
proof (induction rule: bw_reach.induct)
  case start
  then show ?case by (simp add: bw_inv_def wm_inv_def)
next
  case (event s e r)
  then show ?case using bw_step_inv [OF assms] by blast
qed

subsection \<open>Lemmas: callbacks and input\<close>

lemma getWindow_upd_first:
  "(\<And>v. wname (f v) = wname v) \<Longrightarrow> getWindow (upd_first n f ws) n = map_option f (getWindow ws n)"
  by (induction ws) (auto simp: getWindow_def)

lemma getWindow_Some: "getWindow ws n = Some win \<Longrightarrow> wname win = n \<and> win \<in> set ws"
  unfolding getWindow_def by (induction ws) (auto split: if_splits)

lemma on_window_id:
  assumes "host_ok H" "bw_reach H s" "on_window s sid = Some win"
  shows "broadwayId win = sid"
proof -
  obtain ws where ws: "wm s = Some ws" "wm_inv ws"
    using assms bw_reach_inv [OF assms(1,2)] by (auto simp: on_window_def bw_inv_def split: option.splits)
  have "getWindow ws (surface_name sid) = Some win" using ws(1) assms(3) by (simp add: on_window_def)
  from getWindow_Some [OF this] have "wname win = surface_name sid" "win \<in> set ws" by simp_all
  then show ?thesis using ws(2) by (auto simp: wm_inv_def)
qed

text \<open>
  Mouse input after the client moved a window is relative to the new position,
  shifted up by the title-bar height 26 of \<open>getMousePos\<close>.
\<close>

lemma move_then_mouse:
  assumes "bw_reach std_host s" "on_window s sid = Some win"
  shows "\<exists>s'. bw_step std_host (Gtk (MoveSurface sid True x y False w h)) s = Some (Normal s') \<and>
     bw_step std_host (Dom sid e px py) s' =
       Some (Normal (s'\<lparr>sent := sent s @ [Inject sid (dom_listener e) (Some (x, y, px - x, py - y - 26))]\<rparr>))"
proof -
  have ok: "host_ok std_host" by (simp add: host_ok_def std_host_def keeps_def wkey_def)
  have id: "broadwayId win = sid" by (rule on_window_id [OF ok assms])
  obtain ws where ws: "wm s = Some ws" "getWindow ws (surface_name sid) = Some win"
    using assms(2) by (auto simp: on_window_def split: option.splits)
  let ?s' = "s\<lparr>wm := Some (upd_first (surface_name sid) (\<lambda>v. v\<lparr>position := (x, y)\<rparr>) ws)\<rparr>"
  have 1: "bw_step std_host (Gtk (MoveSurface sid True x y False w h)) s = Some (Normal ?s')"
    using ws(1) by (simp add: std_host_def)
  have "on_window ?s' sid = Some (win\<lparr>position := (x, y)\<rparr>)"
    using ws(2) getWindow_upd_first [of "\<lambda>v. v\<lparr>position := (x, y)\<rparr>"] by (simp add: on_window_def)
  then have 2: "bw_step std_host (Dom sid e px py) ?s' =
       Some (Normal (?s'\<lparr>sent := sent s @ [Inject sid (dom_listener e) (Some (x, y, px - x, py - y - 26))]\<rparr>))"
    using id by (simp add: inject_def getMousePos_def)
  show ?thesis by (rule exI [of _ ?s'], rule conjI [OF 1 2])
qed

text \<open>
  Without a window manager (\<open>API.getWMInstance()\<close> was \<open>null\<close>) every callback
  but \<open>onCreateSurface\<close> does nothing; \<open>onCreateSurface\<close> has no such guard and
  throws.
\<close>

lemma no_wm_callbacks:
  "gtk_callback H c None =
     (case c of CreateSurface sid x y w h \<Rightarrow> Threw (TypeError ''Cannot read property addWindow of null'') (None, None)
      | _ \<Rightarrow> Normal (None, None))"
  by (cases c) simp_all

end
