(* ===== verification/Spec2Isabelle.thy ===== *)
theory Spec2Isabelle
  imports Application Refinement Broadway
begin

text \<open>
  \<^bold>\<open>A verification library for the DrumSampler sequencer and the Broadway proxy.\<close>

  The program is \<^verbatim>\<open>src/DrumSampler/main.js\<close>, an OS.js application: a 16-step
  drum machine on the Web Audio API. Its engine has four parts. The
  \<^emph>\<open>Pattern Store\<close> holds the beat document: tempo, swing, kit, effect, and
  six instruments with a pitch and a 16-step pattern of volume indices. The
  \<^emph>\<open>Scheduler\<close> (\<open>Sampler.prototype.tick\<close> with \<open>advanceNote\<close>) runs a lookahead
  loop on the audio clock and re-arms itself with \<open>setTimeout(..., 0)\<close>. The
  \<^emph>\<open>Voice Trigger\<close> (\<open>note\<close>/\<open>playNote\<close>) starts one buffer source per active
  instrument of a step. The \<^emph>\<open>Sample Bank\<close> (\<open>Kit\<close>, \<open>preload\<close>) loads the six
  samples. The window's handlers (\<open>onPlayPressed\<close>, \<open>onButtonToggle\<close>,
  \<open>doNew\<close>, \<open>doOpen\<close>) drive the sampler; the sampler reports back through
  \<open>opts.onNote\<close>.

  The second program, \<^verbatim>\<open>src/Broadway/broadway.js\<close>, is independent of the
  sequencer: canvas-backed proxy windows for a GTK Broadway client. The client
  calls the surface callbacks of \<open>createBroadwayWindow\<close>, which find the proxy
  window of a surface by its name \<open>'BroadwayWindow' + id\<close> in the host window
  manager; the proxy sends mouse and key input back through \<open>GTK.inject\<close>.

  \<^bold>\<open>Theories.\<close>
  \<^item> \<open>Prelude\<close>: JavaScript errors (\<open>js_error\<close>) and the result type
    \<open>'a outcome\<close> (\<open>Normal\<close>, or \<open>Threw\<close> with the effects done before the throw);
    array reads and writes (\<open>js_get\<close>: \<open>undefined\<close> out of range is \<open>None\<close>;
    \<open>js_set\<close>: a write past the end grows the array); truthiness; list lemmas.
  \<^item> \<open>Pattern\<close>: the GLOBALS block (\<open>MIN_TEMPO\<close> \<dots> \<open>LABELS\<close>, \<open>NULL_BEAT\<close>,
    \<open>DEMO_BEAT\<close>, lines 41--123) as \<open>record beat\<close>/\<open>instrument\<close> values; the
    well-formedness \<open>wf_beat\<close> (tempo in [50,180], swing in [0,1], six instruments
    of 16 cells below 3); \<open>setNote_beat\<close>, the cell write of \<open>setNote\<close>.
  \<^item> \<open>Kit\<close>: \<open>Kit\<close> and \<open>preload\<close> (lines 369--446). The sequential XHR chain is
    \<open>preload_next\<close>, a recursion over the remaining paths. Network and decoder
    are a host function \<open>fetch\<close>: \<open>Decoded\<close>, \<open>DecodeFailed\<close>, or \<open>NoResponse\<close>
    (no \<open>onload\<close> ever runs).
  \<^item> \<open>Voice\<close>: \<open>playNote\<close> as the \<open>voice_trigger\<close> it starts (buffer, panner,
    dry and wet gain, rate, start time); \<open>Sampler_note\<close> (\<open>note\<close>, lines 197--271)
    as \<open>seq_out\<close> over six \<open>play_if\<close> blocks in source order; the audio-node
    edges of \<open>playNote\<close> and of the \<open>Sampler\<close> constructor.
  \<^item> \<open>Scheduler\<close>: the \<open>world\<close> record: the sampler's fields (\<open>record
    sampler\<close>); a heap of beat objects, so that the aliasing of \<open>NULL_BEAT\<close> and
    \<open>DEMO_BEAT\<close> by \<open>this.beat\<close> is kept; the pending timer ids; the audio clock;
    and the output log. The operations are \<open>advanceNote\<close>, \<open>draw_and_advance\<close>,
    the loop \<open>tick_loop\<close>, \<open>tick\<close>, \<open>stop\<close>, \<open>play\<close>, \<open>toggle\<close>, timer
    \<open>fire\<close>, \<open>load\<close>, \<open>reset\<close>, \<open>setNote\<close> and \<open>destroy\<close>, each with the guards
    and early returns of the source.
  \<^item> \<open>Lookahead\<close>: the arithmetic of \<open>advanceNote\<close> and total correctness of the
    loop.
  \<^item> \<open>Transport\<close>: the host event loop. \<open>step\<close> handles one \<open>event\<close>;
    \<open>reach ok\<close> is the inductive set of reachable worlds. Its rules are the
    initial world, any handled event, and the clock advancing.
    \<open>transport_inv\<close> is proved for every reachable world by rule induction.
    So is \<open>live_inv\<close>, for documents with six instruments: a playing sampler
    has exactly one callback pending.
  \<^item> \<open>Document\<close>: \<open>getData\<close> (\<open>JSON.stringify(this.beat)\<close>) as a \<open>json\<close> value
    with the literal's key order, the parsed object read back as a beat by field
    name (\<open>beat_of_json\<close>).
  \<^item> \<open>Window\<close>: \<open>ApplicationDrumSamplerWindow\<close> and the application handlers:
    the button grid of \<open>init\<close> (\<open>grid\<close>), \<open>doDraw\<close> with its two nested loops
    and error paths, \<open>handleHighlight\<close> fed by the sampler's \<open>onNote\<close> calls,
    \<open>updateTitle\<close>, \<open>onPlayPressed\<close>, \<open>onButtonToggle\<close>, \<open>doNew\<close>, \<open>doOpen\<close>,
    \<open>doSave\<close>, \<open>getData\<close>, \<open>destroy\<close>; a \<open>page\<close> (world and window) steps on
    \<open>page_event\<close>s, \<open>page_reach\<close> is the inductive set of reachable pages and
    \<open>page_inv\<close> (a reachable world, a full grid of buttons) holds on all of them.
    The \<open>disabled\<close> state of \<open>_inited\<close> is kept by every event but a completing
    kit callback (\<open>page_step_disabled\<close>), so along a run of page events
    (\<open>page_run\<close>) in which no preload completes the window stays disabled
    (\<open>page_run_disabled\<close>); a window whose sampler was dropped has a quiet
    world (\<open>page_quiet\<close>).
  \<^item> \<open>Application\<close>: \<open>ApplicationDrumSampler\<close> (constructor with the
    \<open>webkitAudioContext\<close> check as an \<open>Inl\<close> error, \<open>init\<close>, \<open>destroy\<close>,
    \<open>_onMessage\<close>, the \<open>mainWindow\<close>-guarded \<open>onNew\<close>, \<open>onOpen\<close>, \<open>onSave\<close>,
    \<open>onGetSaveData\<close>), the application as a state machine \<open>app_step\<close> over
    \<open>app_event\<close>s wrapping the page's events, its reachable states \<open>app_reach\<close>,
    and the invariant that the main window is a reachable page (\<open>app_reach_inv\<close>).
    The window's menu bar is \<open>file_menu\<close> (a File item calls \<open>app.action\<close> or,
    for Load demo track, \<open>doOpen(null, DEMO_BEAT)\<close>) and \<open>onMenuOpen\<close>
    (Play/Pause); \<open>load_demo_keeps_edit\<close> shows that Load demo track after an
    edit re-installs the edited shared object.
    The framework's \<open>Application\<close> base class is host code: its \<open>destroy\<close> is
    taken to destroy the windows, and closing a window (\<open>close_main\<close>) runs the
    window's \<open>destroy\<close> and then sends \<open>destroyWindow\<close>.
  \<^item> \<open>Refinement\<close>: the specification's abstract transport machine
    (\<open>STOPPED\<close>/\<open>PLAYING\<close>, \<open>spec_step\<close>), the abstraction \<open>abs_t\<close>, runs of host
    events (\<open>steps\<close>), and the closed-form step schedule \<open>schedule\<close>.
  \<^item> \<open>Broadway\<close>: the proxy window (\<open>BroadwayWindow\<close>, \<open>bw_init\<close>,
    \<open>getMousePos\<close>, \<open>inject\<close>, \<open>dom_listener\<close>, \<open>onKeyEvent\<close>, \<open>bw_focus\<close>,
    \<open>bw_blur\<close>), the six surface callbacks (\<open>gtk_callback\<close>) on the window
    manager that \<open>createBroadwayWindow\<close> captured (\<open>None\<close> when it was
    \<open>null\<close>), and the proxy state machine \<open>bw_step\<close> with its reachable states
    \<open>bw_reach\<close>. The window manager and \<open>Window.prototype\<close> are host code not in
    the repository: the manager is a list searched by name (\<open>getWindow\<close>), and
    the window methods are the parameters of a \<open>host\<close> record, constrained only
    to keep a window's name, id and canvas (\<open>host_ok\<close>). \<open>id.toString()\<close> is
    \<open>dec\<close>, proved injective by its read-back \<open>nat_of_dec\<close>; the registry
    invariant \<open>wm_inv\<close> holds on every reachable state (rule induction).
  \<^item> \<open>Spec2Isabelle\<close> (this theory): the properties C1--C40 and their witnesses.

  \<^bold>\<open>Loops and fuel.\<close> The \<open>while (noteTime < currentTime + 0.2)\<close> loop
  is a \<open>partial_function (option)\<close>; \<open>None\<close> is a loop that never exits. For
  a well-formed beat every step advances the cursor by at least
  \<open>min_step b = (0.25 - 0.08 * |swing|) * 60 / tempo \<ge> 0.17 * 60 / 180\<close>
  seconds. \<open>tick_loop_budget\<close> proves by induction on a step budget \<open>n\<close>,
  with \<open>n * min_step b\<close> covering the distance to the horizon, that the loop
  returns \<open>Some\<close>. \<open>tick_loop_total\<close> picks such an \<open>n\<close> (Archimedes), so
  termination is proved and not assumed. For beats that are not well-formed,
  \<open>tick_loop_frame\<close> (fixpoint induction) gives the frame properties of any
  result, and \<open>tick_loop_diverges\<close> (fixpoint induction again) shows that a
  negative tempo gives \<open>None\<close>. \<open>preload_next\<close> is structural on the six paths. The graph
  reachability of C17 uses the fuel function \<open>reaches\<close>, sound for
  \<open>trancl\<close>, with fuel 2--4 (the graph's longest path).

  \<^bold>\<open>Tempo 0.\<close> HOL's division by zero is 0, so for a beat with tempo 0
  \<open>advanceNote\<close> adds nothing to \<open>noteTime\<close> and the loop is \<open>None\<close>; in
  JavaScript \<open>60 / 0\<close> is \<open>Infinity\<close>, \<open>noteTime\<close> becomes \<open>Infinity\<close> and the
  loop exits after one step. A \<open>play\<close> or timer of such a document therefore
  has no successor in \<open>step\<close>, and the runs C26 and C38 speak of (runs that
  return) do not contain it: they say nothing of documents with tempo 0, which the
  code accepts through File/Open.

  \<^bold>\<open>Properties.\<close>
  \<^item> C1--C4: the loop terminates, fills exactly the lookahead window, and
    has the swing and tempo arithmetic (no drift over a bar).
  \<^item> C5: closing the main window destroys the application and leaves no
    sampler callback pending (application, window and scheduler together).
  \<^item> C6--C10: the transport: \<open>stop\<close> is idempotent and cancels the re-arm,
    the invariants of stopped worlds, the step-index bound, and that \<open>play\<close>
    schedules every voice after now.
  \<^item> C11--C14: the voices of one step.
  \<^item> C15--C17: the kit preload and the mixing graph.
  \<^item> C18--C24: edits and documents, including the behaviours the findings
    report: the shared \<open>NULL_BEAT\<close> (C20), \<open>lastDrawTime\<close> kept across
    \<open>stop\<close> (C21), \<open>load\<close> without validation (C22), and a malformed document
    stalling the transport (C24); C25: a negative tempo hangs \<open>play\<close>;
    C26: with six instruments a playing transport always has its next tick pending.
  \<^item> C27--C29: where the code departs from the stated contracts: voices with
    no buffer are started, \<open>setNote\<close> grows the grid, and \<open>onNote\<close> gets the
    relative time.
  \<^item> C30--C37: the document and the window: what is saved reads back (C30), the
    window stays disabled until a kit preload completes (C31), the grid is a bijection
    (C32) that \<open>doDraw\<close> agrees with (C33), save then open is the identity on the
    beat and the grid (C34), stopping clears the highlight (C35), and the two
    error paths of File/Open (C36, C37).
  \<^item> C38--C39: the host event loop refines the specification's state machine
    over every run of events, and \<open>advanceNote\<close> equals the closed-form schedule.
  \<^item> C40: the Broadway callbacks act on the window of their own surface.
    The \<open>Broadway\<close> theory also proves that mouse input after a move is
    relative to the new position (\<open>move_then_mouse\<close>) and that without a window
    manager only \<open>onCreateSurface\<close> throws (\<open>no_wm_callbacks\<close>).

  \<^bold>\<open>Not modelled.\<close>
  \<^item> IEEE-754 rounding, \<open>NaN\<close> and \<open>Infinity\<close>: JavaScript numbers are \<open>real\<close>
    (so a division by a tempo of 0 differs, see above).
  \<^item> The audio rendering itself, and \<open>Sampler.prototype.init\<close>'s context
    creation: the model keeps the started voices and the node graph only.
  \<^item> The JSON text layer: \<open>JSON.parse (JSON.stringify v) = v\<close> is the
    library's; a parsed text is a document or \<open>None\<close> for a syntax error. A hole
    left in a pattern by a write past its end is 0 in the model, where
    \<open>JSON.stringify\<close> would write \<open>null\<close>.
  \<^item> The DOM nodes, CSS classes, the menu bar widgets and the toggle-button
    widget (host library code: a click hands over the widget's new state);
    \<open>Utils.filename\<close> is a parameter of \<open>updateTitle\<close>.
  \<^item> The OS.js framework's own work in \<open>Application\<close> and \<open>Window\<close>
    (window lists, the dialogs behind \<open>app.action\<close>, \<open>_focus\<close>, what a
    disabled window ignores).
  \<^item> In the Broadway proxy: the WebSocket and the GTK client (drawing into the
    canvas, \<open>GTK.connect\<close>), the DOM work of \<open>init\<close> (\<open>appendChild\<close>, listener
    registration), and fractional mouse coordinates (they are integers, so
    \<open>parseInt\<close> is the identity).
\<close>

lemmas sampler_eval = tick_loop_unfold Sampler_note_def play_if_def advanceNote_def globals_defs
  draw_and_advance_def vol_def playNote_def buffer_of_def Kit_def Sampler_def Let_def

lemmas wf_eval = wf_beat_def wf_instrument_def globals_defs

text \<open>A loaded document at the slowest tempo, used to exhibit a restart run.\<close>

definition slow_beat :: beat where "slow_beat = DEMO_BEAT\<lparr>tempo := 50\<rparr>"

text \<open>A beat with one hard hit, in row 0 at step 0.\<close>

definition tom_beat :: beat where
  "tom_beat = NULL_BEAT\<lparr>instruments := (instruments NULL_BEAT)[0 := \<lparr>pitch = 0.5, pattern = 2 # replicate 15 0\<rparr>]\<rparr>"

section \<open>The scheduling loop\<close>

text \<open>
  C1: the lookahead loop of \<open>tick\<close> exits for every well-formed beat (tempo in
  \<open>[50, 180]\<close>, swing in \<open>[0, 1]\<close>): the cursor advances by at least
  \<open>(0.25 - 0.08) * 60 / 180\<close> seconds per step, so it reaches the horizon.
\<close>

theorem tick_loop_terminates:
  assumes "wf_beat b"
  shows "\<exists>r. tick_loop b k st currentTime s outs = Some r"
  using tick_loop_total [OF wf_beat_tempo_pos [OF assms] wf_beat_min_step [OF assms]] by blast

theorem tick_loop_terminates_witness:
  "wf_beat DEMO_BEAT \<and> (\<exists>r. tick_loop DEMO_BEAT (Kit '''') 0 0 (Sampler '''') [] = Some r)"
proof -
  have h: "wf_beat DEMO_BEAT" by (simp add: wf_eval DEMO_BEAT_def)
  show ?thesis using h tick_loop_terminates [OF h] by blast
qed

text \<open>
  C2: when the loop exits normally, the cursor has reached the lookahead horizon
  (\<open>currentTime + 0.2\<close>) and every voice it started is scheduled at an audio-clock
  time between the cursor it started from and the horizon.
\<close>

theorem tick_loop_window:
  assumes "wf_beat b" "tick_loop b k st currentTime s outs = Some (Normal (s', outs'))"
  shows "currentTime + 0.2 \<le> noteTime s' \<and>
    (\<forall>v \<in> set (voices_of (drop (length outs) outs')).
       st + noteTime s \<le> start_at v \<and> start_at v < st + currentTime + 0.2)"
proof -
  obtain r where r: "tick_loop b k st currentTime s outs = Some r"
    and ok: "loop_ok st currentTime s outs r"
    using tick_loop_total [OF wf_beat_tempo_pos [OF assms(1)] wf_beat_min_step [OF assms(1)]] by blast
  from r assms(2) have "r = Normal (s', outs')" by simp
  with ok show ?thesis by (auto simp: loop_ok_def window_ok_def list_all_iff)
qed

theorem tick_loop_window_witness:
  "wf_beat DEMO_BEAT \<and>
   (\<exists>s' outs'. tick_loop DEMO_BEAT (Kit '''') 0 0 (Sampler '''') [] = Some (Normal (s', outs')) \<and>
      0 + 0.2 \<le> noteTime s' \<and>
      (\<forall>v \<in> set (voices_of (drop 0 outs')). 0 + 0 \<le> start_at v \<and> start_at v < 0 + 0 + 0.2))"
proof -
  have h: "wf_beat DEMO_BEAT" by (simp add: wf_eval DEMO_BEAT_def)
  have "\<exists>s' outs'. tick_loop DEMO_BEAT (Kit '''') 0 0 (Sampler '''') [] = Some (Normal (s', outs'))"
    by (simp add: sampler_eval DEMO_BEAT_def)
  then obtain s' outs' where ev: "tick_loop DEMO_BEAT (Kit '''') 0 0 (Sampler '''') [] = Some (Normal (s', outs'))"
    by blast
  have "0 + 0.2 \<le> noteTime s' \<and>
      (\<forall>v \<in> set (voices_of (drop (length ([] :: sampler_output list)) outs')).
         0 + noteTime (Sampler '''') \<le> start_at v \<and> start_at v < 0 + 0 + 0.2)"
    by (rule tick_loop_window [OF h ev])
  with h ev show ?thesis by (auto simp: Sampler_def)
qed

text \<open>
  C3: the swing: two successive cursor steps are the two magnitudes
  \<open>(0.25 \<plusminus> MAX_SWING * swingFactor) * secondsPerBeat\<close>, one of each, and
  together they make exactly half a beat (\<open>30 / tempo\<close> seconds).
\<close>

theorem swing_pair:
  assumes "rhythmIndex s < TRACKS"
  shows "{noteTime (advanceNote b s) - noteTime s,
          noteTime (advanceNote b (advanceNote b s)) - noteTime (advanceNote b s)} =
         {(0.25 + MAX_SWING * swingFactor b) * (60 / tempo b),
          (0.25 - MAX_SWING * swingFactor b) * (60 / tempo b)} \<and>
         noteTime (advanceNote b (advanceNote b s)) - noteTime s = 30 / tempo b"
proof -
  have p: "odd (rhythmIndex (advanceNote b (advanceNote b s))) \<longleftrightarrow> even (rhythmIndex (advanceNote b s))"
    using assms by (intro advanceNote_parity advanceNote_index_bound)
  have "{noteTime (advanceNote b s) - noteTime s,
          noteTime (advanceNote b (advanceNote b s)) - noteTime (advanceNote b s)} =
         {(0.25 + MAX_SWING * swingFactor b) * (60 / tempo b),
          (0.25 - MAX_SWING * swingFactor b) * (60 / tempo b)}"
    using p unfolding advanceNote_noteTime [of b "advanceNote b s"] advanceNote_noteTime [of b s]
    by auto
  moreover have "noteTime (advanceNote b (advanceNote b s)) - noteTime s = 30 / tempo b"
    using advanceNote_twice [OF assms] by simp
  ultimately show ?thesis by blast
qed

theorem swing_pair_witness:
  "rhythmIndex (Sampler '''') < TRACKS \<and>
   noteTime (advanceNote DEMO_BEAT (advanceNote DEMO_BEAT (Sampler ''''))) - noteTime (Sampler '''') = 30 / 120"
proof -
  have h: "rhythmIndex (Sampler '''') < TRACKS" by (simp add: Sampler_def TRACKS_def)
  show ?thesis using h swing_pair [OF h, of DEMO_BEAT] by (simp add: DEMO_BEAT_def)
qed

text \<open>
  C4: no drift over a loop: sixteen steps from any step index move the cursor by
  exactly four beats (\<open>240 / tempo\<close> seconds) and return to the same index.
\<close>

theorem loop_no_drift:
  assumes "rhythmIndex s < TRACKS"
  shows "noteTime ((advanceNote b ^^ TRACKS) s) = noteTime s + 240 / tempo b \<and>
         rhythmIndex ((advanceNote b ^^ TRACKS) s) = rhythmIndex s"
proof -
  have "noteTime ((advanceNote b ^^ (2 * 8)) s) = noteTime s + real 8 * (30 / tempo b)"
    using assms by (rule advanceNote_pow_even)
  moreover have "rhythmIndex ((advanceNote b ^^ TRACKS) s) = (rhythmIndex s + TRACKS) mod TRACKS"
    using assms by (rule advanceNote_pow_index)
  ultimately show ?thesis using assms by (simp add: TRACKS_def)
qed

theorem loop_no_drift_witness:
  "rhythmIndex (Sampler '''') < TRACKS \<and>
   noteTime ((advanceNote DEMO_BEAT ^^ TRACKS) (Sampler '''')) = 2"
proof -
  have h: "rhythmIndex (Sampler '''') < TRACKS" by (simp add: Sampler_def TRACKS_def)
  show ?thesis using h loop_no_drift [OF h, of DEMO_BEAT] by (simp add: DEMO_BEAT_def Sampler_def)
qed

text \<open>
  At tempo 120 with no swing the time between two successive steps is
  \<open>60 / 120 / 4 = 0.125\<close> seconds.
\<close>

theorem step_120bpm:
  assumes "tempo b = 120" "swingFactor b = 0"
  shows "noteTime (advanceNote b s) = noteTime s + 0.125"
  using assms by (simp add: advanceNote_noteTime)

theorem step_120bpm_witness:
  "tempo DEMO_BEAT = 120 \<and> swingFactor DEMO_BEAT = 0 \<and>
   noteTime (advanceNote DEMO_BEAT (Sampler '''')) = 0.125"
proof -
  have h: "tempo DEMO_BEAT = 120" "swingFactor DEMO_BEAT = 0" by (simp_all add: DEMO_BEAT_def)
  show ?thesis using h step_120bpm [OF h, of "Sampler ''''"] by (simp add: Sampler_def)
qed

section \<open>The transport\<close>

text \<open>
  C6: \<open>stop\<close> is idempotent, and it notifies \<open>onNote()\<close> (no arguments) exactly
  once when the transport was playing and not at all when it was stopped.
\<close>

theorem stop_idempotent:
  "stop (stop w) = stop w \<and>
   outputs (stop w) = outputs w @ (if playing (smp w) then [OnNoteStopped] else [])"
  by (auto simp: stop_def clearTimeout_def Let_def split: option.splits)

text \<open>
  C7: \<open>stop\<close> cancels the pending re-arm: in any reachable world, after \<open>stop\<close> no
  \<open>setTimeout\<close> callback of the sampler is pending, so no later timer event runs
  \<open>tick\<close> or changes anything.
\<close>

theorem stop_cancels_rearm:
  assumes "reach ok w"
  shows "\<not> playing (smp (stop w)) \<and> timers (stop w) = [] \<and> step (EvFire h) (stop w) = Some (stop w)"
proof -
  have "transport_inv w" using assms by (rule reach_inv)
  then have "\<not> playing (smp (stop w))" "timers (stop w) = []"
    using stop_inv by blast+
  then show ?thesis by (simp add: fire_def)
qed

theorem stop_cancels_rearm_witness:
  "reach (\<lambda>_. True) (init_world '''' 0) \<and>
   step (EvFire 1) (stop (init_world '''' 0)) = Some (stop (init_world '''' 0))"
proof -
  have h: "reach (\<lambda>_. True) (init_world '''' 0)" by (rule reach.start)
  show ?thesis using h stop_cancels_rearm [OF h, of 1] by blast
qed

text \<open>
  C8: a stopped transport schedules nothing: in every reachable world that is not
  playing, no callback is pending, the step cursor is reset, and a timer event
  leaves the world unchanged.
\<close>

theorem stopped_schedules_nothing:
  assumes "reach ok w" "\<not> playing (smp w)"
  shows "timers w = [] \<and> rhythmIndex (smp w) = 0 \<and> noteTime (smp w) = 0 \<and> step (EvFire h) w = Some w"
proof -
  have "transport_inv w" using assms(1) by (rule reach_inv)
  with assms(2) have "timers w = []" "rhythmIndex (smp w) = 0" "noteTime (smp w) = 0"
    by (auto simp: transport_inv_def)
  then show ?thesis by (simp add: fire_def)
qed

theorem stopped_schedules_nothing_witness:
  "reach (\<lambda>_. True) (init_world '''' 0) \<and> \<not> playing (smp (init_world '''' 0)) \<and>
   step (EvFire 7) (init_world '''' 0) = Some (init_world '''' 0)"
proof -
  have h1: "reach (\<lambda>_. True) (init_world '''' 0)" by (rule reach.start)
  have h2: "\<not> playing (smp (init_world '''' 0))" by (simp add: init_world_def Sampler_def)
  show ?thesis using h1 h2 stopped_schedules_nothing [OF h1 h2, of 7] by blast
qed

text \<open>C9: the step index of every reachable world is below \<open>TRACKS\<close> (16).\<close>

theorem reach_index_bound:
  assumes "reach ok w"
  shows "rhythmIndex (smp w) < TRACKS"
  using reach_inv [OF assms] by (simp add: transport_inv_def)

theorem reach_index_bound_witness:
  "reach (\<lambda>_. True) (init_world '''' 0) \<and> rhythmIndex (smp (init_world '''' 0)) < TRACKS"
proof -
  have h: "reach (\<lambda>_. True) (init_world '''' 0)" by (rule reach.start)
  show ?thesis using h reach_index_bound [OF h] by blast
qed

text \<open>
  C10: \<open>play\<close> from a stopped reachable world with a well-formed beat returns
  normally, is playing with \<open>startTime = now + 0.005\<close>, has exactly one callback
  pending, and schedules every voice strictly after the audio clock's \<open>now\<close>.
\<close>

theorem play_starts_after_now:
  assumes "reach ok w" "\<not> playing (smp w)" "wf_beat (cur_beat w)"
  shows "\<exists>w'. play w = Some (Normal w') \<and> playing (smp w') \<and>
    startTime (smp w') = Some (clock w + 0.005) \<and>
    (\<exists>h. timers w' = [h] \<and> timeout (smp w') = Some h) \<and>
    (\<forall>v \<in> set (voices_of (drop (length (outputs w)) (outputs w'))). clock w < start_at v)"
proof -
  have "transport_inv w" using assms(1) by (rule reach_inv)
  with assms(2) have st: "timers w = []" "noteTime (smp w) = 0"
    by (auto simp: transport_inv_def)
  let ?w2 = "w\<lparr>smp := (smp w)\<lparr>playing := True, startTime := Some (clock w + 0.005), noteTime := 0.0\<rparr>\<rparr>"
  have pl: "play w = tick ?w2"
    using assms(2) by (simp add: play_def stop_def)
  have "wf_beat (cur_beat ?w2)"
    using assms(3) by (simp add: cur_beat_def)
  then obtain s' new where
    t: "tick ?w2 = Some (Normal (set_timeout (?w2\<lparr>smp := s', outputs := outputs ?w2 @ new\<rparr>)))"
    and fr: "frame_ok (smp ?w2) s'"
    and win: "window_ok (js_num (startTime (smp ?w2)) + noteTime (smp ?w2)) (clock ?w2 + 0.2) new"
    by (blast dest: tick_wf)
  show ?thesis
    using pl t fr win st by (auto simp: frame_ok_def window_ok_def list_all_iff js_num_def)
qed

theorem play_starts_after_now_witness:
  "reach (\<lambda>_. True) (init_world '''' 0) \<and> \<not> playing (smp (init_world '''' 0)) \<and>
   wf_beat (cur_beat (init_world '''' 0)) \<and>
   (\<exists>w'. play (init_world '''' 0) = Some (Normal w') \<and> playing (smp w'))"
proof -
  have h1: "reach (\<lambda>_. True) (init_world '''' 0)" by (rule reach.start)
  have h2: "\<not> playing (smp (init_world '''' 0))" by (simp add: init_world_def Sampler_def)
  have h3: "wf_beat (cur_beat (init_world '''' 0))"
    by (simp add: cur_beat_def init_world_def Sampler_def DEMO_REF_def DEMO_BEAT_def wf_eval)
  show ?thesis using h1 h2 h3 play_starts_after_now [OF h1 h2 h3] by blast
qed

section \<open>The voice fan-out\<close>

text \<open>
  C11: the kick voice of one step (the only voice with send gain 0.5): a step whose
  row-5 cell is 0 schedules no kick; otherwise exactly one kick voice, on buffer
  \<open>kick\<close>, unpanned, at dry gain \<open>VOLUMES[cell]\<close> (1 for a hard hit), at the
  step's time. With cell (5, 0) set to 2 this is the spec's kick test.
\<close>

theorem kick_voice:
  assumes "wf_beat b" "ri < TRACKS"
  shows "filter (\<lambda>v. wetGain v = 0.5) (out_value (Sampler_note b k t ri)) =
     (if cell b 5 ri = Some 0 then []
      else [\<lparr>vbuffer = buffer_of k ''kick'', panPosition = None,
             dryGain = Some (VOLUMES ! the (cell b 5 ri)), wetGain = 0.5, rate = 0, start_at = t\<rparr>])"
proof -
  obtain c0 c1 c2 c3 c4 c5 where c: "cell b 0 ri = Some c0" "cell b 1 ri = Some c1" "cell b 2 ri = Some c2"
    "cell b 3 ri = Some c3" "cell b 4 ri = Some c4" "cell b 5 ri = Some c5"
    and lt: "c0 < 3" "c1 < 3" "c2 < 3" "c3 < 3" "c4 < 3" "c5 < 3"
    by (rule wf_cells [OF assms])
  then show ?thesis
    by (simp add: Sampler_note_def play_if_cell playNote_def vol_def vol_cases effectDryMix_def)
qed

theorem kick_voice_witness:
  "wf_beat DEMO_BEAT \<and> 0 < TRACKS \<and>
   filter (\<lambda>v. wetGain v = 0.5) (out_value (Sampler_note DEMO_BEAT (Kit '''') 3 0)) =
     [\<lparr>vbuffer = buffer_of (Kit '''') ''kick'', panPosition = None, dryGain = Some 1, wetGain = 0.5, rate = 0, start_at = 3\<rparr>]"
proof -
  have h1: "wf_beat DEMO_BEAT" by (simp add: wf_eval DEMO_BEAT_def)
  have h2: "0 < TRACKS" by (simp add: TRACKS_def)
  show ?thesis
    using h1 h2 kick_voice [OF h1 h2, of "Kit ''''" 3]
    by (simp add: cell_def DEMO_BEAT_def VOLUMES_def)
qed

text \<open>
  C12: for a well-formed beat, \<open>note\<close> never throws; it starts one voice per
  instrument whose cell at the step is non-zero, in the order kick, snare, hi-hat,
  rows 2, 1, 0; every voice starts at the given time, at playback rate 0, with a
  dry gain in \<open>[0, 1]\<close>.
\<close>

theorem note_wf_voices:
  assumes "wf_beat b" "ri < TRACKS"
  shows "\<exists>vs. Sampler_note b k t ri = Normal vs \<and>
    length vs = length (filter (\<lambda>row. cell b row ri \<noteq> Some 0) [5, 4, 3, 2, 1, 0]) \<and>
    (\<forall>v \<in> set vs. start_at v = t \<and> rate v = 0 \<and> (\<exists>g. dryGain v = Some g \<and> 0 \<le> g \<and> g \<le> 1))"
proof -
  obtain c0 c1 c2 c3 c4 c5 where c: "cell b 0 ri = Some c0" "cell b 1 ri = Some c1" "cell b 2 ri = Some c2"
    "cell b 3 ri = Some c3" "cell b 4 ri = Some c4" "cell b 5 ri = Some c5"
    and lt: "c0 < 3" "c1 < 3" "c2 < 3" "c3 < 3" "c4 < 3" "c5 < 3"
    by (rule wf_cells [OF assms])
  obtain vs where vs: "Sampler_note b k t ri = Normal vs"
    using Sampler_note_Normal [OF wf_beat_six [OF assms(1)]] by blast
  have len: "length (out_value (Sampler_note b k t ri)) =
      length (filter (\<lambda>row. cell b row ri \<noteq> Some 0) [5, 4, 3, 2, 1, 0])"
    using c unfolding Sampler_note_def by (simp only: play_if_cell) simp
  have ok: "list_all (\<lambda>v. start_at v = t \<and> rate v = 0 \<and> (\<exists>g. dryGain v = Some g \<and> 0 \<le> g \<and> g \<le> 1))
      (out_value (Sampler_note b k t ri))"
    using c lt unfolding Sampler_note_def
    by (simp only: play_if_cell) (simp add: voice_ok)
  from vs len ok show ?thesis by (simp add: list_all_iff)
qed

theorem note_wf_voices_witness:
  "wf_beat DEMO_BEAT \<and> 4 < TRACKS \<and>
   (\<exists>vs. Sampler_note DEMO_BEAT (Kit '''') 1 4 = Normal vs \<and> (\<forall>v \<in> set vs. start_at v = 1 \<and> rate v = 0))"
proof -
  have h1: "wf_beat DEMO_BEAT" by (simp add: wf_eval DEMO_BEAT_def)
  have h2: "4 < TRACKS" by (simp add: TRACKS_def)
  show ?thesis
    using h1 h2 note_wf_voices [OF h1 h2, of "Kit ''''" 1] by blast
qed

text \<open>
  C13: the \<open>pitch\<close> field is never read: \<open>note\<close> gives the same voices whatever
  the instruments' pitches, and every voice it starts has playback rate 0.
\<close>

theorem note_ignores_pitch:
  "Sampler_note (b\<lparr>instruments := map (\<lambda>i. i\<lparr>pitch := p i\<rparr>) (instruments b)\<rparr>) k t ri = Sampler_note b k t ri \<and>
   (\<forall>v \<in> set (out_value (Sampler_note b k t ri)). rate v = 0)"
proof -
  have "play_if (b\<lparr>instruments := map (\<lambda>i. i\<lparr>pitch := p i\<rparr>) (instruments b)\<rparr>) row ri mk = play_if b row ri mk"
    for row mk
    by (simp add: play_if_def js_get_def)
  moreover have "\<forall>v \<in> set (out_value (Sampler_note b k t ri)). rate v = 0"
    using Sampler_note_voices by blast
  ultimately show ?thesis by (simp add: Sampler_note_def)
qed

theorem note_ignores_pitch_witness:
  "Sampler_note \<lparr>beat_kit = None, tempo = 120, effect = None, effectMix = 0, swingFactor = 0,
      instruments = replicate 6 \<lparr>pitch = 0.7, pattern = [1]\<rparr>\<rparr> (Kit '''') 1 0 =
   Sampler_note \<lparr>beat_kit = None, tempo = 120, effect = None, effectMix = 0, swingFactor = 0,
      instruments = replicate 6 \<lparr>pitch = 0.5, pattern = [1]\<rparr>\<rparr> (Kit '''') 1 0 \<and>
   length (out_value (Sampler_note \<lparr>beat_kit = None, tempo = 120, effect = None, effectMix = 0,
      swingFactor = 0, instruments = replicate 6 \<lparr>pitch = 0.5, pattern = [1]\<rparr>\<rparr> (Kit '''') 1 0)) = 6"
proof -
  have l: "length (out_value (Sampler_note \<lparr>beat_kit = None, tempo = 120, effect = None, effectMix = 0,
      swingFactor = 0, instruments = replicate 6 \<lparr>pitch = 0.5, pattern = [1]\<rparr>\<rparr> (Kit '''') 1 0)) = 6"
    by (simp add: Sampler_note_def play_if_def numeral_eq_Suc)
  show ?thesis
    using l note_ignores_pitch [where p = "\<lambda>_. 0.7" and b = "\<lparr>beat_kit = None, tempo = 120, effect = None,
      effectMix = 0, swingFactor = 0, instruments = replicate 6 \<lparr>pitch = 0.5, pattern = [1]\<rparr>\<rparr>"
      and k = "Kit ''''" and t = 1 and ri = 0]
    by (simp add: numeral_eq_Suc)
qed

text \<open>
  C14: rows 0 and 2 play each other's tom: for a well-formed beat, a step whose only
  hit is in row 0 (labelled \<open>Tom 1\<close>) plays exactly one voice, on buffer
  \<open>tom3\<close>, and a step whose only hit is in row 2 (labelled \<open>Tom 3\<close>) plays
  exactly one voice, on buffer \<open>tom1\<close>; the voice is unpanned, at dry gain
  \<open>VOLUMES[cell] * 0.6\<close>, send gain 1, at the step's time.
\<close>

theorem tom_rows_swapped:
  assumes "wf_beat b" "ri < TRACKS" "r = 0 \<or> r = 2" "cell b r ri = Some v" "v \<noteq> 0"
    "\<forall>r' < INSTRUMENTS. r' \<noteq> r \<longrightarrow> cell b r' ri = Some 0"
  shows "LABELS ! r = (if r = 0 then ''Tom 1'' else ''Tom 3'') \<and>
    Sampler_note b k t ri = Normal [\<lparr>vbuffer = buffer_of k (if r = 0 then ''tom3'' else ''tom1''),
      panPosition = None, dryGain = Some (VOLUMES ! v * 0.6), wetGain = 1, rate = 0, start_at = t\<rparr>]"
proof -
  obtain c0 c1 c2 c3 c4 c5 where c: "cell b 0 ri = Some c0" "cell b 1 ri = Some c1" "cell b 2 ri = Some c2"
    "cell b 3 ri = Some c3" "cell b 4 ri = Some c4" "cell b 5 ri = Some c5"
    and lt: "c0 < 3" "c1 < 3" "c2 < 3" "c3 < 3" "c4 < 3" "c5 < 3"
    by (rule wf_cells [OF assms(1,2)])
  have z: "cell b r' ri = Some 0" if "r' < 6" "r' \<noteq> r" for r'
    using assms(6) that by (simp add: globals_defs)
  from assms(3) show ?thesis
  proof
    assume r: "r = 0"
    have "c1 = 0" "c2 = 0" "c3 = 0" "c4 = 0" "c5 = 0" "c0 = v"
      using z [of 1] z [of 2] z [of 3] z [of 4] z [of 5] c assms(4) r by simp_all
    with c lt assms(5) r show ?thesis
      by (simp add: LABELS_def Sampler_note_def play_if_cell playNote_def vol_def vol_cases effectDryMix_def)
  next
    assume r: "r = 2"
    have "c1 = 0" "c0 = 0" "c3 = 0" "c4 = 0" "c5 = 0" "c2 = v"
      using z [of 1] z [of 0] z [of 3] z [of 4] z [of 5] c assms(4) r by simp_all
    with c lt assms(5) r show ?thesis
      by (simp add: LABELS_def Sampler_note_def play_if_cell playNote_def vol_def vol_cases effectDryMix_def)
  qed
qed

theorem tom_rows_swapped_witness:
  "Sampler_note tom_beat (Kit '''') 1 0 =
     Normal [\<lparr>vbuffer = buffer_of (Kit '''') ''tom3'', panPosition = None, dryGain = Some 0.6, wetGain = 1, rate = 0, start_at = 1\<rparr>]"
proof -
  have h1: "wf_beat tom_beat" by (simp add: wf_eval tom_beat_def NULL_BEAT_def list_all_iff)
  have h2: "0 < TRACKS" by (simp add: globals_defs)
  have h4: "cell tom_beat 0 0 = Some 2" by (simp add: cell_def js_get_def tom_beat_def NULL_BEAT_def)
  have h6: "\<forall>r' < INSTRUMENTS. r' \<noteq> 0 \<longrightarrow> cell tom_beat r' 0 = Some 0"
    by (simp add: globals_defs cell_def js_get_def tom_beat_def NULL_BEAT_def less_Suc_eq numeral_eq_Suc)
  show ?thesis
    using tom_rows_swapped [OF h1 h2 _ h4 _ h6, of "Kit ''''" 1] by (simp add: VOLUMES_def)
qed

section \<open>The sample bank and the mixing graph\<close>

text \<open>
  C15: \<open>sampler.init\<close> completes (the kit calls \<open>cbFinished\<close>) exactly when none
  of the six sample requests of \<open>new Kit\<close> is left without a response; a decode
  error does not stop the chain.
\<close>

theorem kit_init_completes:
  "snd (preload fetch (Kit r)) \<longleftrightarrow>
   (\<forall>name \<in> set [''kick'', ''snare'', ''hihat'', ''tom1'', ''tom2'', ''tom3''].
      fetch (r @ ''drum-samples/R8/'' @ name @ ''.wav'') \<noteq> NoResponse)"
  using preload_next_finished [of fetch "paths (Kit r)" "buffers (Kit r)"]
  by (simp add: preload_def Kit_def Let_def case_prod_beta)

theorem kit_init_completes_witness:
  "\<not> snd (preload (\<lambda>u. if u = ''drum-samples/R8/snare.wav'' then NoResponse else Decoded (AudioBuffer u)) (Kit ''''))"
  using kit_init_completes [of "\<lambda>u. if u = ''drum-samples/R8/snare.wav'' then NoResponse else Decoded (AudioBuffer u)" "''''"]
  by simp

text \<open>
  C16: after a completed preload every voice whose sample decoded has its buffer,
  and every voice whose sample failed to decode has none (it plays silently),
  whatever the other voices did.
\<close>

theorem kit_preload_buffers:
  assumes "\<forall>p \<in> set (paths (Kit r)). fetch (snd p) \<noteq> NoResponse" "(name, url) \<in> set (paths (Kit r))"
  shows "buffer_of (fst (preload fetch (Kit r))) name = (case fetch url of Decoded b \<Rightarrow> Some b | _ \<Rightarrow> None)"
proof -
  have names: "name \<in> {''kick'', ''snare'', ''hihat'', ''tom1'', ''tom2'', ''tom3''}"
    using assms(2) by (auto simp: Kit_def Let_def)
  have "fst (preload_next fetch (paths (Kit r)) (buffers (Kit r))) name =
      (case fetch url of Decoded b \<Rightarrow> Some (Buffer b) | _ \<Rightarrow> buffers (Kit r) name)"
    by (rule preload_next_loaded) (use assms names in \<open>auto simp: Kit_def Let_def\<close>)
  moreover have "buffers (Kit r) name = None \<or> buffers (Kit r) name = Some Null"
    using names by (auto simp: Kit_def Let_def)
  ultimately show ?thesis
    by (auto simp: preload_def buffer_of_def case_prod_beta split: fetch_outcome.splits)
qed

theorem kit_preload_buffers_witness:
  "(''kick'', ''drum-samples/R8/kick.wav'') \<in> set (paths (Kit '''')) \<and>
   buffer_of (fst (preload (\<lambda>u. if u = ''drum-samples/R8/kick.wav'' then DecodeFailed else Decoded (AudioBuffer u)) (Kit ''''))) ''kick'' = None"
proof -
  have h1: "\<forall>p \<in> set (paths (Kit '''')). (\<lambda>u. if u = ''drum-samples/R8/kick.wav'' then DecodeFailed else Decoded (AudioBuffer u)) (snd p) \<noteq> NoResponse"
    by (simp add: Kit_def)
  have h2: "(''kick'', ''drum-samples/R8/kick.wav'') \<in> set (paths (Kit ''''))"
    by (simp add: Kit_def)
  show ?thesis using h1 h2 kit_preload_buffers [OF h1 h2] by simp
qed

text \<open>
  C17: every voice reaches the output twice: through its dry gain into the master
  gain and on to the destination, and through its wet gain into the shared
  convolver, the effect level and the master gain; with or without panner and
  compressor. The destination feeds nothing back.
\<close>

theorem voice_reaches_output:
  "(Source, DryGain) \<in> (set (playNote_edges pan @ mix_edges hasCompressor))\<^sup>+ \<and>
   (DryGain, Destination) \<in> (set (playNote_edges pan @ mix_edges hasCompressor))\<^sup>+ \<and>
   (Source, Convolver) \<in> (set (playNote_edges pan @ mix_edges hasCompressor))\<^sup>+ \<and>
   (Convolver, Destination) \<in> (set (playNote_edges pan @ mix_edges hasCompressor))\<^sup>+ \<and>
   (\<forall>n. (Destination, n) \<notin> set (playNote_edges pan @ mix_edges hasCompressor))"
proof -
  let ?E = "playNote_edges pan @ mix_edges hasCompressor"
  have r: "reaches ?E 2 Source DryGain" "reaches ?E 3 DryGain Destination"
    "reaches ?E 3 Source Convolver" "reaches ?E 4 Convolver Destination"
    by (cases pan; cases hasCompressor; simp add: playNote_edges_def mix_edges_def numeral_eq_Suc)+
  have "\<forall>n. (Destination, n) \<notin> set ?E"
    by (cases pan; cases hasCompressor) (auto simp: playNote_edges_def mix_edges_def)
  moreover have "(Source, DryGain) \<in> (set ?E)\<^sup>+" by (rule reaches_trancl [OF r(1)]) simp
  moreover have "(DryGain, Destination) \<in> (set ?E)\<^sup>+" by (rule reaches_trancl [OF r(2)]) simp
  moreover have "(Source, Convolver) \<in> (set ?E)\<^sup>+" by (rule reaches_trancl [OF r(3)]) simp
  moreover have "(Convolver, Destination) \<in> (set ?E)\<^sup>+" by (rule reaches_trancl [OF r(4)]) simp
  ultimately show ?thesis by blast
qed

section \<open>The pattern store\<close>

text \<open>
  C18: a grid toggle (\<open>setNote\<close>) in range with a value 0--2 keeps the current
  beat well-formed, stores the value in the cell \<open>note\<close> reads, and leaves the
  transport untouched.
\<close>

theorem setNote_keeps_wf:
  assumes "reach ok w" "wf_beat (cur_beat w)" "row < INSTRUMENTS" "col < TRACKS" "v < length VOLUMES"
  shows "\<exists>w'. setNote row col v w = Normal w' \<and> wf_beat (cur_beat w') \<and>
    cell (cur_beat w') row col = Some v \<and> smp w' = smp w"
proof -
  have i: "beat (smp w) < length (heap w)"
    using reach_inv [OF assms(1)] by (simp add: transport_inv_def)
  obtain b' where b': "setNote_beat (cur_beat w) row col v = Inr b'" "wf_beat b'"
    using setNote_beat_wf [OF assms(2-5)] by blast
  have "cell b' row col = Some v"
    using cell_setNote_beat [OF b'(1)] by blast
  with b' i show ?thesis by (simp add: setNote_def cur_beat_def)
qed

theorem setNote_keeps_wf_witness:
  "reach (\<lambda>_. True) (init_world '''' 0) \<and> wf_beat (cur_beat (init_world '''' 0)) \<and>
   5 < INSTRUMENTS \<and> 0 < TRACKS \<and> 2 < length VOLUMES \<and>
   (\<exists>w'. setNote 5 0 2 (init_world '''' 0) = Normal w' \<and> cell (cur_beat w') 5 0 = Some 2)"
proof -
  have h1: "reach (\<lambda>_. True) (init_world '''' 0)" by (rule reach.start)
  have h2: "wf_beat (cur_beat (init_world '''' 0))"
    by (simp add: cur_beat_def init_world_def Sampler_def DEMO_REF_def DEMO_BEAT_def wf_eval)
  have h3: "5 < INSTRUMENTS" "0 < TRACKS" "2 < length VOLUMES" by (simp_all add: globals_defs)
  show ?thesis using h1 h2 h3 setNote_keeps_wf [OF h1 h2 h3] by blast
qed

text \<open>
  C19: a toggle on a row the beat does not have throws a \<open>TypeError\<close> and changes
  nothing.
\<close>

theorem setNote_row_error:
  assumes "length (instruments (cur_beat w)) \<le> row"
  shows "setNote row col v w = Threw (TypeError ''Cannot read property pattern of undefined'') w"
  using assms by (simp add: setNote_def setNote_beat_def js_get_def)

theorem setNote_row_error_witness:
  "length (instruments (cur_beat (init_world '''' 0))) \<le> 6 \<and>
   setNote 6 0 1 (init_world '''' 0) = Threw (TypeError ''Cannot read property pattern of undefined'') (init_world '''' 0)"
proof -
  have h: "length (instruments (cur_beat (init_world '''' 0))) \<le> 6"
    by (simp add: cur_beat_def init_world_def Sampler_def DEMO_REF_def DEMO_BEAT_def)
  show ?thesis using h setNote_row_error [OF h] by blast
qed

text \<open>
  C20: File/New does not give a silent pattern after an edit: in any world whose
  heap still holds the global \<open>NULL_BEAT\<close> object at \<open>NULL_REF\<close>, \<open>reset\<close>
  points the sampler at that object, \<open>setNote\<close> edits it in place (any cell, any
  non-zero volume), and the next \<open>reset\<close> returns to the edited object rather
  than to an empty pattern.
\<close>

theorem reset_reuses_edited_null_beat:
  assumes "NULL_REF < length (heap w)" "heap w ! NULL_REF = NULL_BEAT"
    "row < INSTRUMENTS" "col < TRACKS" "v \<noteq> 0"
  shows "let w1 = reset w; w2 = out_value (setNote row col v w1); w3 = reset w2 in
    cur_beat w1 = NULL_BEAT \<and> cur_beat w3 = cur_beat w2 \<and> cell (cur_beat w3) row col = Some v \<and>
    cur_beat w3 \<noteq> NULL_BEAT"
proof -
  let ?w1 = "reset w"
  have c1: "cur_beat ?w1 = NULL_BEAT" using assms(2) by (simp add: reset_def Let_def cur_beat_def)
  have b1: "beat (smp ?w1) = NULL_REF" by (simp add: reset_def Let_def)
  have l1: "NULL_REF < length (heap ?w1)" using assms(1) by (simp add: reset_def Let_def)
  obtain b' where sb: "setNote_beat NULL_BEAT row col v = Inr b'"
    using setNote_beat_Inr [of row NULL_BEAT col v] assms(3) by (simp add: globals_defs NULL_BEAT_def)
  let ?w2 = "out_value (setNote row col v ?w1)"
  have w2: "?w2 = ?w1\<lparr>heap := (heap ?w1)[NULL_REF := b']\<rparr>" using c1 b1 sb by (simp add: setNote_def)
  have c2: "cur_beat ?w2 = b'" using w2 b1 l1 by (simp add: cur_beat_def)
  have c3: "cur_beat (reset ?w2) = b'" using w2 l1 by (simp add: reset_def Let_def cur_beat_def)
  have cv: "cell b' row col = Some v" using cell_setNote_beat [OF sb] by simp
  have c0: "cell NULL_BEAT row col = Some 0"
    using assms(3,4) by (simp add: globals_defs cell_def js_get_def NULL_BEAT_def less_Suc_eq numeral_eq_Suc)
      (elim disjE; simp add: nth_Cons split: nat.splits)
  show ?thesis using c1 c2 c3 cv c0 assms(5) by (auto simp: Let_def)
qed

theorem reset_reuses_edited_null_beat_witness:
  "let w1 = reset (init_world [] 0); w2 = out_value (setNote 0 0 2 w1); w3 = reset w2 in
    cur_beat w1 = NULL_BEAT \<and> cur_beat w3 = cur_beat w2 \<and> cell (cur_beat w3) 0 0 = Some 2 \<and>
    cur_beat w3 \<noteq> NULL_BEAT"
proof -
  have h1: "NULL_REF < length (heap (init_world [] 0))" by (simp add: init_world_def NULL_REF_def)
  have h2: "heap (init_world [] 0) ! NULL_REF = NULL_BEAT" by (simp add: init_world_def NULL_REF_def)
  have h3: "0 < INSTRUMENTS" "0 < TRACKS" by (simp_all add: globals_defs)
  show ?thesis by (rule reset_reuses_edited_null_beat [OF h1 h2 h3]) simp
qed

text \<open>
  C21: \<open>stop\<close> does not reset \<open>lastDrawTime\<close>, so the first step's \<open>onNote\<close> of
  a run is lost whenever \<open>lastDrawTime\<close> is still 0: from any reachable stopped
  world with a well-formed beat and \<open>lastDrawTime = 0\<close>, \<open>play\<close> starts the
  voices of step 0 and then notifies only later steps (every \<open>onNote\<close> has a
  positive time), never \<open>onNote(15, 0)\<close>. A run at tempo 50 that is stopped
  after its first pass reaches such a world.
\<close>

theorem restart_loses_first_highlight:
  assumes "reach ok w" "\<not> playing (smp w)" "wf_beat (cur_beat w)" "lastDrawTime (smp w) = 0"
    "play w = Some r"
  shows "\<exists>vs ys. Sampler_note (cur_beat w) (kit (smp w)) (clock w + 0.005) 0 = Normal vs \<and>
    drop (length (outputs w)) (outputs (out_value r)) = map StartVoice vs @ ys \<and>
    (\<forall>i t. OnNote i t \<in> set (map StartVoice vs @ ys) \<longrightarrow> 0 < t)"
proof -
  have ti: "transport_inv w" using assms(1) by (rule reach_inv)
  obtain vs ys where "Sampler_note (cur_beat w) (kit (smp w)) (clock w + 0.005) 0 = Normal vs"
    and "drop (length (outputs w)) (outputs (out_value r)) =
      map StartVoice vs @ (if lastDrawTime (smp w) \<noteq> 0 then [OnNote 15 0] else []) @ ys"
    and "wf_beat (cur_beat w) \<longrightarrow> (\<forall>i t. OnNote i t \<in> set ys \<longrightarrow> 0 < t)"
    using play_first_step [OF ti assms(2) wf_beat_six [OF assms(3)] assms(5)] by blast
  with assms(3,4) show ?thesis by auto
qed

theorem restart_loses_first_highlight_witness:
  "\<exists>w2 r. play (out_value (load (LoadText (Some slow_beat)) (init_world [] 0))) = Some (Normal w2) \<and>
     OnNote 15 0 \<in> set (outputs w2) \<and> play (stop w2) = Some r \<and>
     (\<forall>i t. OnNote i t \<in> set (drop (length (outputs (stop w2))) (outputs (out_value r))) \<longrightarrow> 0 < t)"
proof -
  let ?w1 = "out_value (load (LoadText (Some slow_beat)) (init_world [] 0))"
  have "\<exists>w2 r. play ?w1 = Some (Normal w2) \<and> play (stop w2) = Some r \<and> playing (smp w2) \<and>
      lastDrawTime (smp w2) = 0 \<and> cur_beat w2 = slow_beat \<and> OnNote 15 0 \<in> set (outputs w2)"
    by (simp add: load_def play_def stop_def init_world_def tick_def js_num_def cur_beat_def
      clearTimeout_def set_timeout_def slow_beat_def DEMO_BEAT_def sampler_eval)
  then obtain w2 r where p2: "play ?w1 = Some (Normal w2)" and p4: "play (stop w2) = Some r"
    and pl: "playing (smp w2)" and ld: "lastDrawTime (smp w2) = 0" and cb: "cur_beat w2 = slow_beat"
    and on: "OnNote 15 0 \<in> set (outputs w2)" by blast
  have np1: "\<not> playing (smp ?w1)" by (simp add: load_def stop_def init_world_def Sampler_def)
  have r1: "reach (\<lambda>_. True) ?w1"
    by (rule reach.event [OF reach.start, of _ "EvLoad (LoadText (Some slow_beat))"]) simp_all
  have r2: "reach (\<lambda>_. True) w2"
    by (rule reach.event [OF r1, of EvToggle]) (simp_all add: toggle_def np1 p2)
  have r3: "reach (\<lambda>_. True) (stop w2)"
    by (rule reach.event [OF r2, of EvToggle]) (simp_all add: toggle_def pl)
  have np3: "\<not> playing (smp (stop w2))" and ld3: "lastDrawTime (smp (stop w2)) = 0"
    using pl ld by (simp_all add: stop_def Let_def clearTimeout_def split: option.splits)
  have wf3: "wf_beat (cur_beat (stop w2))"
    using cb by (simp add: cur_beat_def wf_eval slow_beat_def DEMO_BEAT_def)
  show ?thesis
    using restart_loses_first_highlight [OF r3 np3 wf3 ld3 p4] p2 p4 on by auto
qed

text \<open>
  C22: \<open>load\<close> of a parsed document installs it as it is, without any check of
  its shape or ranges, and leaves the transport stopped.
\<close>

theorem load_accepts_any_document:
  "\<exists>w'. load (LoadText (Some b)) w = Normal w' \<and> cur_beat w' = b \<and> \<not> playing (smp w') \<and>
     heap w' = heap w @ [b]"
  by (auto simp: load_def cur_beat_def stop_def clearTimeout_def Let_def split: option.splits)

text \<open>
  C23: \<open>load\<close> of a text that is not JSON throws the \<open>SyntaxError\<close> of
  \<open>JSON.parse\<close> after \<open>stop\<close> has run: the pattern is unchanged but the transport
  is stopped.
\<close>

theorem load_syntax_error_stops:
  "load (LoadText None) w = Threw SyntaxError (stop w) \<and> cur_beat (stop w) = cur_beat w \<and>
   \<not> playing (smp (stop w))"
  by (auto simp: load_def cur_beat_def stop_def clearTimeout_def Let_def split: option.splits)

text \<open>
  C24: a document without six instruments stalls the transport: after \<open>load\<close>,
  \<open>play\<close> throws the \<open>TypeError\<close> of \<open>note\<close> on the first step, after
  \<open>playing\<close> was set and before \<open>setTimeout\<close>; the sampler is left playing with
  no callback pending, so nothing ever ticks again until the user stops it.
\<close>

theorem malformed_play_stalls:
  assumes "reach ok w" "length (instruments b) \<le> 5"
  shows "\<exists>w2. play (out_value (load (LoadText (Some b)) w)) =
      Some (Threw (TypeError ''Cannot read property pattern of undefined'') w2) \<and>
    playing (smp w2) \<and> timers w2 = [] \<and> timeout (smp w2) = None \<and> cur_beat w2 = b"
proof -
  have inv: "transport_inv (stop w)" "\<not> playing (smp (stop w))" "timers (stop w) = []"
    using stop_inv [OF reach_inv [OF assms(1)]] by blast+
  then have s: "timeout (smp (stop w)) = None" "noteTime (smp (stop w)) = 0"
    by (auto simp: transport_inv_def)
  let ?w1 = "(stop w)\<lparr>heap := heap (stop w) @ [b], smp := (smp (stop w))\<lparr>beat := length (heap (stop w))\<rparr>\<rparr>"
  let ?s = "(smp ?w1)\<lparr>playing := True, startTime := Some (clock ?w1 + 0.005), noteTime := 0.0\<rparr>"
  have l: "out_value (load (LoadText (Some b)) w) = ?w1" by (simp add: load_def Let_def)
  have t: "tick_loop b (kit ?s) (clock ?w1 + 0.005) (clock ?w1 - (clock ?w1 + 0.005)) ?s [] =
      Some (Threw (TypeError ''Cannot read property pattern of undefined'') (?s, []))"
    using tick_loop_threw [OF _ Sampler_note_short [OF assms(2)]] by simp
  have "play ?w1 = Some (Threw (TypeError ''Cannot read property pattern of undefined'') (?w1\<lparr>smp := ?s\<rparr>))"
    using inv(2) t by (simp add: play_def stop_def tick_def js_num_def cur_beat_def)
  with l inv s show ?thesis by (simp add: cur_beat_def)
qed

theorem malformed_play_stalls_witness:
  "reach (\<lambda>_. True) (init_world '''' 0) \<and>
   length (instruments \<lparr>beat_kit = None, tempo = 120, effect = None, effectMix = 0, swingFactor = 0,
     instruments = []\<rparr>) \<le> 5 \<and>
   (\<exists>w2. play (out_value (load (LoadText (Some \<lparr>beat_kit = None, tempo = 120, effect = None, effectMix = 0,
       swingFactor = 0, instruments = []\<rparr>)) (init_world '''' 0))) =
     Some (Threw (TypeError ''Cannot read property pattern of undefined'') w2) \<and> playing (smp w2) \<and> timers w2 = [])"
proof -
  have h1: "reach (\<lambda>_. True) (init_world '''' 0)" by (rule reach.start)
  have h2: "length (instruments \<lparr>beat_kit = None, tempo = 120, effect = None, effectMix = 0, swingFactor = 0,
     instruments = []\<rparr>) \<le> 5" by simp
  show ?thesis using h1 h2 malformed_play_stalls [OF h1 h2] by blast
qed

text \<open>
  C25: a loaded document with a negative tempo hangs the page: \<open>load\<close> accepts it,
  and the next \<open>play\<close> enters the lookahead loop of \<open>tick\<close>, whose cursor only
  moves back, so \<open>play\<close> never returns.
\<close>

theorem negative_tempo_hangs:
  assumes "reach ok w" "tempo b < 0" "\<bar>swingFactor b\<bar> \<le> 1" "INSTRUMENTS \<le> length (instruments b)"
  shows "play (out_value (load (LoadText (Some b)) w)) = None"
proof -
  have inv: "\<not> playing (smp (stop w))"
    using stop_inv [OF reach_inv [OF assms(1)]] by blast
  let ?w1 = "(stop w)\<lparr>heap := heap (stop w) @ [b], smp := (smp (stop w))\<lparr>beat := length (heap (stop w))\<rparr>\<rparr>"
  let ?s = "(smp ?w1)\<lparr>playing := True, startTime := Some (clock ?w1 + 0.005), noteTime := 0.0\<rparr>"
  have l: "out_value (load (LoadText (Some b)) w) = ?w1" by (simp add: load_def Let_def)
  have t: "tick_loop b (kit ?s) (clock ?w1 + 0.005) (clock ?w1 - (clock ?w1 + 0.005)) ?s [] = None"
    by (rule tick_loop_diverges [OF assms(2-4)]) simp
  have "play ?w1 = None"
    using inv t by (simp add: play_def stop_def tick_def js_num_def cur_beat_def)
  with l show ?thesis by simp
qed

theorem negative_tempo_hangs_witness:
  "reach (\<lambda>_. True) (init_world '''' 0) \<and>
   tempo \<lparr>beat_kit = None, tempo = -120, effect = None, effectMix = 0, swingFactor = 0,
     instruments = replicate 6 \<lparr>pitch = 0.5, pattern = []\<rparr>\<rparr> < 0 \<and>
   play (out_value (load (LoadText (Some \<lparr>beat_kit = None, tempo = -120, effect = None, effectMix = 0,
     swingFactor = 0, instruments = replicate 6 \<lparr>pitch = 0.5, pattern = []\<rparr>\<rparr>)) (init_world '''' 0))) = None"
proof -
  have h1: "reach (\<lambda>_. True) (init_world '''' 0)" by (rule reach.start)
  have h2: "tempo \<lparr>beat_kit = None, tempo = -120, effect = None, effectMix = 0, swingFactor = 0,
     instruments = replicate 6 \<lparr>pitch = 0.5, pattern = []\<rparr>\<rparr> < (0::real)" by simp
  have h3: "\<bar>swingFactor \<lparr>beat_kit = None, tempo = -120, effect = None, effectMix = 0, swingFactor = 0,
     instruments = replicate 6 \<lparr>pitch = 0.5, pattern = []\<rparr>\<rparr>\<bar> \<le> (1::real)" by simp
  have h4: "INSTRUMENTS \<le> length (instruments \<lparr>beat_kit = None, tempo = -120, effect = None, effectMix = 0,
     swingFactor = 0, instruments = replicate 6 \<lparr>pitch = 0.5, pattern = []\<rparr>\<rparr>)" by (simp add: INSTRUMENTS_def)
  show ?thesis using h1 h2 negative_tempo_hangs [OF h1 h2 h3 h4] by blast
qed

text \<open>
  C26: while the documents have the six instruments \<open>note\<close> reads, the transport
  never stalls: in every reachable world that is playing, exactly one
  \<open>setTimeout\<close> callback is pending, and it is the sampler's \<open>timeout\<close>. With
  fewer instruments it does stall (C24).
\<close>

theorem playing_has_pending_tick:
  assumes "reach six w" "playing (smp w)"
  shows "\<exists>h. timeout (smp w) = Some h \<and> timers w = [h]"
  using reach_live [OF assms(1)] assms(2) by (simp add: live_inv_def)

theorem playing_has_pending_tick_witness:
  "\<exists>w. reach six w \<and> playing (smp w) \<and> (\<exists>h. timeout (smp w) = Some h \<and> timers w = [h])"
proof -
  obtain w' where w': "toggle (init_world '''' 0) = Some (Normal w')" "playing (smp w')"
    using toggle_init by blast
  have "reach six w'"
  proof (rule reach.event [OF reach.start])
    show "event_ok six EvToggle" by simp
    show "step EvToggle (init_world '''' 0) = Some w'" using w'(1) by simp
  qed
  with w'(2) show ?thesis using playing_has_pending_tick by blast
qed

text \<open>
  C27: a voice whose buffer is missing is still started, not skipped: on a
  well-formed beat \<open>note\<close> returns normally and starts the kick with no buffer
  when the kit holds none under \<open>kick\<close> (as before the preload finishes, the
  initial \<open>buffers\<close> object having the key \<open>kickBuffer\<close> only).
\<close>

theorem missing_buffer_voice_started:
  assumes "wf_beat b" "ri < TRACKS" "cell b 5 ri \<noteq> Some 0" "buffer_of k ''kick'' = None"
  shows "\<exists>vs. Sampler_note b k t ri = Normal vs \<and> (\<exists>v \<in> set vs. vbuffer v = None \<and> wetGain v = 0.5 \<and> start_at v = t)"
proof -
  obtain c0 c1 c2 c3 c4 c5 where c: "cell b 0 ri = Some c0" "cell b 1 ri = Some c1" "cell b 2 ri = Some c2"
    "cell b 3 ri = Some c3" "cell b 4 ri = Some c4" "cell b 5 ri = Some c5"
    and lt: "c0 < 3" "c1 < 3" "c2 < 3" "c3 < 3" "c4 < 3" "c5 < 3"
    by (rule wf_cells [OF assms(1,2)])
  with assms(3,4) show ?thesis
    by (simp add: Sampler_note_def play_if_cell playNote_def)
qed

theorem missing_buffer_voice_started_witness:
  "wf_beat DEMO_BEAT \<and> 0 < TRACKS \<and> cell DEMO_BEAT 5 0 \<noteq> Some 0 \<and> buffer_of (kit (Sampler '''')) ''kick'' = None \<and>
   (\<exists>vs. Sampler_note DEMO_BEAT (kit (Sampler '''')) 1 0 = Normal vs \<and> (\<exists>v \<in> set vs. vbuffer v = None))"
proof -
  have h1: "wf_beat DEMO_BEAT" by (simp add: wf_eval DEMO_BEAT_def)
  have h2: "0 < TRACKS" by (simp add: TRACKS_def)
  have h3: "cell DEMO_BEAT 5 0 \<noteq> Some 0" by (simp add: cell_def DEMO_BEAT_def)
  have h4: "buffer_of (kit (Sampler '''')) ''kick'' = None" by (simp add: Sampler_def Kit_def buffer_of_def)
  show ?thesis using h1 h2 h3 h4 missing_buffer_voice_started [OF h1 h2 h3 h4, of 1] by blast
qed

text \<open>
  C28: \<open>setNote\<close> does not guard the grid: a column at or past \<open>TRACKS\<close> is written
  by extending the pattern array, so the 16-step invariant of the document
  breaks (and the transport is not consulted).
\<close>

theorem setNote_grows_pattern:
  assumes "reach ok w" "wf_beat (cur_beat w)" "row < INSTRUMENTS" "TRACKS \<le> col"
  shows "\<exists>w'. setNote row col v w = Normal w' \<and> smp w' = smp w \<and>
    length (pattern (instruments (cur_beat w') ! row)) = Suc col \<and> \<not> wf_beat (cur_beat w')"
proof -
  have i: "beat (smp w) < length (heap w)"
    using reach_inv [OF assms(1)] by (simp add: transport_inv_def)
  have r: "row < length (instruments (cur_beat w))" "length (pattern (instruments (cur_beat w) ! row)) = TRACKS"
    using assms(2,3) by (auto simp: wf_beat_def wf_instrument_def list_all_length)
  let ?b' = "(cur_beat w)\<lparr>instruments := (instruments (cur_beat w))[row := (instruments (cur_beat w) ! row)\<lparr>pattern :=
      js_set 0 (pattern (instruments (cur_beat w) ! row)) col v\<rparr>]\<rparr>"
  have s: "setNote row col v w = Normal (w\<lparr>heap := (heap w)[beat (smp w) := ?b']\<rparr>)"
    using setNote_beat_Inr [OF r(1)] by (simp add: setNote_def)
  have c: "cur_beat (w\<lparr>heap := (heap w)[beat (smp w) := ?b']\<rparr>) = ?b'"
    using i by (simp add: cur_beat_def)
  have l: "length (pattern (instruments ?b' ! row)) = Suc col"
    using r assms(4) by simp
  then have "\<not> wf_beat ?b'"
    using r(1) assms(4) by (auto simp: wf_beat_def wf_instrument_def list_all_length)
  with s c l show ?thesis by simp
qed

theorem setNote_grows_pattern_witness:
  "reach (\<lambda>_. True) (init_world '''' 0) \<and> wf_beat (cur_beat (init_world '''' 0)) \<and> 0 < INSTRUMENTS \<and> TRACKS \<le> 16 \<and>
   (\<exists>w'. setNote 0 16 1 (init_world '''' 0) = Normal w' \<and> \<not> wf_beat (cur_beat w'))"
proof -
  have h1: "reach (\<lambda>_. True) (init_world '''' 0)" by (rule reach.start)
  have h2: "wf_beat (cur_beat (init_world '''' 0))"
    using wf_beat_DEMO_BEAT by (simp add: cur_beat_def init_world_def Sampler_def DEMO_REF_def)
  have h3: "0 < INSTRUMENTS" "TRACKS \<le> (16::nat)" by (simp_all add: globals_defs)
  show ?thesis using h1 h2 h3 setNote_grows_pattern [OF h1 h2 h3, of 1] by blast
qed

text \<open>
  C29: \<open>onNote\<close> receives the cursor relative to \<open>startTime\<close>, not the audio-clock
  time at which the step sounds: from any reachable stopped world whose beat has six
  instruments and whose \<open>lastDrawTime\<close> is not 0, \<open>play\<close> at clock \<open>c\<close> sets
  \<open>startTime = c + 0.005\<close>, starts the voices of step 0 at \<open>c + 0.005\<close>, and then
  calls \<open>onNote(15, 0)\<close>.
\<close>

theorem onNote_relative_time:
  assumes "reach ok w" "\<not> playing (smp w)" "six (cur_beat w)" "lastDrawTime (smp w) \<noteq> 0"
    "play w = Some r"
  shows "startTime (smp (out_value r)) = Some (clock w + 0.005) \<and>
    (\<exists>vs ys. drop (length (outputs w)) (outputs (out_value r)) = map StartVoice vs @ OnNote 15 0 # ys \<and>
       (\<forall>v \<in> set vs. start_at v = clock w + 0.005))"
proof -
  have ti: "transport_inv w" using assms(1) by (rule reach_inv)
  obtain vs ys where n: "Sampler_note (cur_beat w) (kit (smp w)) (clock w + 0.005) 0 = Normal vs"
    and d: "drop (length (outputs w)) (outputs (out_value r)) =
      map StartVoice vs @ (if lastDrawTime (smp w) \<noteq> 0 then [OnNote 15 0] else []) @ ys"
    and st: "startTime (smp (out_value r)) = Some (clock w + 0.005)"
    using play_first_step [OF ti assms(2) assms(3) [unfolded six_def] assms(5)] by blast
  have "\<forall>v \<in> set vs. start_at v = clock w + 0.005"
    using Sampler_note_voices [of _ "cur_beat w" "kit (smp w)" "clock w + 0.005" 0] n by fastforce
  with d st assms(4) show ?thesis by auto
qed

theorem onNote_relative_time_witness:
  "\<exists>r. play (init_world [] 7) = Some r \<and> startTime (smp (out_value r)) = Some (7 + 0.005) \<and>
     (\<exists>vs ys. outputs (out_value r) = map StartVoice vs @ OnNote 15 0 # ys \<and>
        (\<forall>v \<in> set vs. start_at v = 7 + 0.005))"
proof -
  have "\<exists>r. play (init_world [] 7) = Some r"
    by (simp add: play_def stop_def init_world_def tick_def js_num_def cur_beat_def
      clearTimeout_def set_timeout_def DEMO_BEAT_def sampler_eval DEMO_REF_def)
  then obtain r where p: "play (init_world [] 7) = Some r" by blast
  have h1: "reach (\<lambda>_. True) (init_world [] 7)" by (rule reach.start)
  have h2: "\<not> playing (smp (init_world [] 7))" "lastDrawTime (smp (init_world [] 7)) \<noteq> 0"
    by (simp_all add: init_world_def Sampler_def)
  have h3: "six (cur_beat (init_world [] 7))"
    by (simp add: six_def cur_beat_def init_world_def Sampler_def DEMO_REF_def DEMO_BEAT_def globals_defs)
  have o: "outputs (init_world [] 7) = []" and c: "clock (init_world [] 7) = 7"
    by (simp_all add: init_world_def)
  show ?thesis using onNote_relative_time [OF h1 h2(1) h3 h2(2) p] p
    unfolding o c by (simp only: list.size drop_0) blast
qed

section \<open>The document and the window\<close>

text \<open>
  C30: what File/Save writes reads back as the current beat: \<open>getData\<close> is
  \<open>JSON.stringify\<close> of the beat object, and reading that document as a beat gives
  the beat it was written from (every field, every cell).
\<close>

theorem getData_reads_back:
  assumes "getData p = Some d"
  shows "beat_of_json d = Some (cur_beat (pw p))"
  using assms by (auto simp: getData_def beat_json_roundtrip split: if_splits)

theorem getData_reads_back_witness:
  "getData (init_page (\<lambda>s. s) '''' 0 ''Drum Sampler'') = Some (beat_to_json DEMO_BEAT) \<and>
   beat_of_json (beat_to_json DEMO_BEAT) = Some DEMO_BEAT"
proof -
  have h1: "page_reach (\<lambda>s. s) (\<lambda>_. True) (init_page (\<lambda>s. s) '''' 0 ''Drum Sampler'')"
    by (rule page_reach.start)
  have h2: "has_sampler (pwin (init_page (\<lambda>s. s) '''' 0 ''Drum Sampler''))"
    by (simp add: init_page_def init_win_def updateTitle_def Let_def)
  have cb: "cur_beat (pw (init_page (\<lambda>s. s) '''' 0 ''Drum Sampler'')) = DEMO_BEAT"
    by (simp add: init_page_def init_world_def cur_beat_def Sampler_def DEMO_REF_def)
  have g: "getData (init_page (\<lambda>s. s) '''' 0 ''Drum Sampler'') = Some (beat_to_json DEMO_BEAT)"
    using h2 cb by (simp add: getData_def)
  show ?thesis using g getData_reads_back [OF g] cb by simp
qed

text \<open>
  C31: the window is built disabled (\<open>_toggleDisabled(true)\<close> in \<open>init\<close>) and only
  the callback of a completed kit preload enables it: along any run of page events
  from the initial page in which every preload leaves one of the kit's sample
  requests without a response, the window stays disabled, whatever else happens
  (play, clicks, File/New, File/Open, saves, timers).
\<close>

theorem window_stays_disabled:
  assumes "page_run fname es (init_page fname rootName now name) = Some p'"
    "\<forall>e \<in> set es. \<forall>fetch. e = PKitLoaded fetch \<longrightarrow>
       (\<exists>q \<in> set (paths (Kit rootName)). fetch (snd q) = NoResponse)"
  shows "disabled (pwin p')"
proof -
  have "disabled (pwin (init_page fname rootName now name))" by (simp add: init_page_def)
  moreover have "paths (kit (smp (pw (init_page fname rootName now name)))) = paths (Kit rootName)"
    by (simp add: init_page_def init_world_def Sampler_def)
  ultimately show ?thesis using page_run_disabled [OF assms(1)] assms(2) by blast
qed

theorem window_stays_disabled_witness:
  "\<exists>p'. page_run (\<lambda>s. s) [PClick 0 2, PKitLoaded (\<lambda>u. NoResponse)] (init_page (\<lambda>s. s) '''' 0 ''Drum Sampler'') = Some p' \<and>
     disabled (pwin p')"
proof -
  have "\<exists>q \<in> set (paths (Kit '''')). (\<lambda>u. NoResponse) (snd q) = NoResponse" by (simp add: Kit_def) blast
  hence h: "\<forall>e \<in> set [PClick 0 2, PKitLoaded (\<lambda>u. NoResponse)]. \<forall>fetch. e = PKitLoaded fetch \<longrightarrow>
       (\<exists>q \<in> set (paths (Kit '''')). fetch (snd q) = NoResponse)" by auto
  obtain p' where r: "page_run (\<lambda>s. s) [PClick 0 2, PKitLoaded (\<lambda>u. NoResponse)] (init_page (\<lambda>s. s) '''' 0 ''Drum Sampler'') = Some p'"
    by (simp add: Let_def)
  show ?thesis using r window_stays_disabled [OF r h] by blast
qed

text \<open>
  C32: the grid built by the window's \<open>init\<close> is a bijection: button \<open>i\<close> (for
  \<open>i < 96\<close>, in push order) edits cell \<open>(i div 16, i mod 16)\<close>, and every cell of the
  six by sixteen grid has exactly one button.
\<close>

theorem grid_bijection:
  "map fst grid = [0..<INSTRUMENTS * TRACKS] \<and>
   set (map snd grid) = {(y, x). y < INSTRUMENTS \<and> x < TRACKS} \<and> distinct (map snd grid) \<and>
   (\<forall>(i, y, x) \<in> set grid. i = y * TRACKS + x)"
proof -
  let ?f = "\<lambda>i. (i div TRACKS, i mod TRACKS)"
  have T: "0 < TRACKS" by (simp add: TRACKS_def)
  have inj: "inj_on ?f {..<INSTRUMENTS * TRACKS}"
  proof (rule inj_onI)
    fix i j assume "?f i = ?f j"
    then have "i div TRACKS * TRACKS + i mod TRACKS = j div TRACKS * TRACKS + j mod TRACKS" by simp
    then show "i = j" by simp
  qed
  have img: "?f ` {..<INSTRUMENTS * TRACKS} = {(y, x). y < INSTRUMENTS \<and> x < TRACKS}"
  proof (intro set_eqI iffI)
    fix c assume "c \<in> ?f ` {..<INSTRUMENTS * TRACKS}"
    then show "c \<in> {(y, x). y < INSTRUMENTS \<and> x < TRACKS}"
      using T by (auto simp: less_mult_imp_div_less)
  next
    fix c assume "c \<in> {(y, x). y < INSTRUMENTS \<and> x < TRACKS}"
    then obtain y x where c: "c = (y, x)" "y < INSTRUMENTS" "x < TRACKS" by blast
    then have "y * TRACKS + x < INSTRUMENTS * TRACKS" by (simp add: globals_defs)
    moreover have "?f (y * TRACKS + x) = (y, x)" using c(3) by simp
    ultimately show "c \<in> ?f ` {..<INSTRUMENTS * TRACKS}"
      using c(1) by (intro image_eqI [where x = "y * TRACKS + x"]) auto
  qed
  have "map snd grid = map ?f [0..<INSTRUMENTS * TRACKS]" by (simp add: grid_eq comp_def)
  then have "set (map snd grid) = {(y, x). y < INSTRUMENTS \<and> x < TRACKS} \<and> distinct (map snd grid)"
    using inj img by (simp add: distinct_map atLeast0LessThan)
  moreover have "map fst grid = [0..<INSTRUMENTS * TRACKS]" by (simp add: grid_eq comp_def)
  moreover have "\<forall>(i, y, x) \<in> set grid. i = y * TRACKS + x" by (auto simp: grid_eq)
  ultimately show ?thesis by blast
qed

theorem grid_bijection_witness: "(17, 1, 1) \<in> set grid \<and> 17 = 1 * TRACKS + (1::nat)"
proof -
  have m: "(17, 1, 1) \<in> set grid"
    by (simp add: grid_eq globals_defs image_iff)
  then show ?thesis using grid_bijection by blast
qed

text \<open>
  C33: \<open>doDraw\<close> and the grid agree: after drawing a beat with six instruments,
  every button shows the cell its click edits.
\<close>

theorem draw_shows_button_cells:
  assumes "page_reach fname ok p" "has_sampler (pwin p)" "INSTRUMENTS \<le> length (instruments (cur_beat (pw p)))"
  shows "\<exists>p'. doDraw p = Normal p' \<and> pw p' = pw p \<and>
    (\<forall>(i, y, x) \<in> set grid. buttons (pwin p') ! i = cell (cur_beat (pw p)) y x)"
proof -
  obtain bs where d: "doDraw p = Normal (p\<lparr>pwin := (pwin p)\<lparr>buttons := bs\<rparr>\<rparr>)"
    "\<forall>k < INSTRUMENTS * TRACKS. bs ! k = cell (cur_beat (pw p)) (k div TRACKS) (k mod TRACKS)"
    using doDraw_six [OF assms(2,3) page_buttons [OF assms(1,2)]] by blast
  then show ?thesis using grid_mem by fastforce
qed

theorem draw_shows_button_cells_witness:
  "\<exists>p'. doDraw (init_page (\<lambda>s. s) '''' 0 ''Drum Sampler'') = Normal p' \<and> buttons (pwin p') ! 0 = Some 0"
proof -
  have h1: "page_reach (\<lambda>s. s) (\<lambda>_. True) (init_page (\<lambda>s. s) '''' 0 ''Drum Sampler'')"
    by (rule page_reach.start)
  have h2: "has_sampler (pwin (init_page (\<lambda>s. s) '''' 0 ''Drum Sampler''))"
    by (simp add: init_page_def init_win_def updateTitle_def Let_def)
  have cb: "cur_beat (pw (init_page (\<lambda>s. s) '''' 0 ''Drum Sampler'')) = DEMO_BEAT"
    by (simp add: init_page_def init_world_def cur_beat_def Sampler_def DEMO_REF_def)
  have h3: "INSTRUMENTS \<le> length (instruments (cur_beat (pw (init_page (\<lambda>s. s) '''' 0 ''Drum Sampler''))))"
    using cb by (simp add: DEMO_BEAT_def INSTRUMENTS_def)
  have "(0, 0, 0) \<in> set grid" by (simp add: grid_eq globals_defs image_iff)
  moreover have "cell DEMO_BEAT 0 0 = Some 0" by (simp add: cell_def DEMO_BEAT_def)
  ultimately show ?thesis using draw_shows_button_cells [OF h1 h2 h3] cb by fastforce
qed

text \<open>
  C34: save then open reproduces the document (the round trip of the
  specification's external interface): opening what \<open>getData\<close> wrote leaves the
  same beat current, stops the transport, redraws the same grid and shows the
  file name.
\<close>

theorem save_open_roundtrip:
  assumes "page_reach fname ok p" "getData p = Some d" "INSTRUMENTS \<le> length (instruments (cur_beat (pw p)))"
  shows "\<exists>p'. doOpen fname f (LoadText (beat_of_json d)) p = Normal p' \<and> cur_beat (pw p') = cur_beat (pw p) \<and>
    \<not> playing (smp (pw p')) \<and> buttons (pwin p') = buttons (pwin (out_value (doDraw p))) \<and>
    shown (pwin p') = shown (updateTitle fname f (pwin p))"
proof -
  let ?b = "cur_beat (pw p)"
  have hs: "has_sampler (pwin p)" and dj: "d = beat_to_json ?b"
    using assms(2) by (auto simp: getData_def split: if_splits)
  have len: "length (buttons (pwin p)) = INSTRUMENTS * TRACKS" by (rule page_buttons [OF assms(1) hs])
  let ?w1 = "(stop (pw p))\<lparr>heap := heap (pw p) @ [?b], smp := (smp (stop (pw p)))\<lparr>beat := length (heap (pw p))\<rparr>\<rparr>"
  let ?p1 = "run_sampler p ?w1"
  have cur: "cur_beat ?w1 = ?b" by (simp add: cur_beat_def)
  have np: "\<not> playing (smp ?w1)"
    using stop_inv [OF reach_inv [OF page_world [OF assms(1)]]] by simp
  obtain bs1 where d1: "doDraw ?p1 = Normal (?p1\<lparr>pwin := (pwin ?p1)\<lparr>buttons := bs1\<rparr>\<rparr>)"
    "length bs1 = INSTRUMENTS * TRACKS"
    "\<forall>k < INSTRUMENTS * TRACKS. bs1 ! k = cell ?b (k div TRACKS) (k mod TRACKS)"
    using doDraw_six [of ?p1] hs assms(3) len cur by auto
  obtain bs0 where d0: "doDraw p = Normal (p\<lparr>pwin := (pwin p)\<lparr>buttons := bs0\<rparr>\<rparr>)"
    "length bs0 = INSTRUMENTS * TRACKS"
    "\<forall>k < INSTRUMENTS * TRACKS. bs0 ! k = cell ?b (k div TRACKS) (k mod TRACKS)"
    using doDraw_six [OF hs assms(3) len] by blast
  have "bs1 = bs0" using d1(2,3) d0(2,3) by (intro nth_equalityI) auto
  moreover have "doOpen fname f (LoadText (beat_of_json d)) p =
      Normal ((?p1\<lparr>pwin := (pwin ?p1)\<lparr>buttons := bs1\<rparr>\<rparr>)\<lparr>pwin := updateTitle fname f ((pwin ?p1)\<lparr>buttons := bs1\<rparr>)\<rparr>)"
    using hs d1(1) by (simp add: doOpen_def dj beat_json_roundtrip load_text_Some)
  ultimately show ?thesis
    using d0(1) cur np by (simp add: updateTitle_def Let_def run_sampler_def)
qed

theorem save_open_roundtrip_witness:
  "\<exists>p'. doOpen (\<lambda>s. s) (Some ''beat.odbeat'') (LoadText (beat_of_json (beat_to_json DEMO_BEAT)))
      (init_page (\<lambda>s. s) '''' 0 ''Drum Sampler'') = Normal p' \<and> cur_beat (pw p') = DEMO_BEAT"
proof -
  have h1: "page_reach (\<lambda>s. s) (\<lambda>_. True) (init_page (\<lambda>s. s) '''' 0 ''Drum Sampler'')"
    by (rule page_reach.start)
  have h2: "has_sampler (pwin (init_page (\<lambda>s. s) '''' 0 ''Drum Sampler''))"
    by (simp add: init_page_def init_win_def updateTitle_def Let_def)
  have cb: "cur_beat (pw (init_page (\<lambda>s. s) '''' 0 ''Drum Sampler'')) = DEMO_BEAT"
    by (simp add: init_page_def init_world_def cur_beat_def Sampler_def DEMO_REF_def)
  have g: "getData (init_page (\<lambda>s. s) '''' 0 ''Drum Sampler'') = Some (beat_to_json DEMO_BEAT)"
    using h2 cb by (simp add: getData_def)
  have h3: "INSTRUMENTS \<le> length (instruments (cur_beat (pw (init_page (\<lambda>s. s) '''' 0 ''Drum Sampler''))))"
    using cb by (simp add: DEMO_BEAT_def INSTRUMENTS_def)
  show ?thesis using save_open_roundtrip [OF h1 g h3, of "Some ''beat.odbeat''"] cb by auto
qed

text \<open>
  C35: pressing Play/Pause while playing stops the transport, cancels the pending
  tick, and clears the highlighted column (the \<open>onNote()\<close> of \<open>stop\<close> reaches
  \<open>handleHighlight\<close> with no index).
\<close>

theorem press_stop_clears_highlight:
  assumes "page_reach fname ok p" "has_sampler (pwin p)" "playing (smp (pw p))"
  shows "\<exists>p'. onPlayPressed p = Some (Normal p') \<and> hl (pwin p') = None \<and>
    \<not> playing (smp (pw p')) \<and> timers (pw p') = []"
proof -
  have s: "\<not> playing (smp (stop (pw p)))" "timers (stop (pw p)) = []"
    using stop_inv [OF reach_inv [OF page_world [OF assms(1)]]] by auto
  have o: "outputs (stop (pw p)) = outputs (pw p) @ [OnNoteStopped]"
    using assms(3) by (auto simp: stop_def clearTimeout_def Let_def split: option.splits)
  have "onPlayPressed p = Some (Normal (run_sampler p (stop (pw p))))"
    using assms(2,3) by (simp add: onPlayPressed_def toggle_def)
  moreover have "hl (pwin (run_sampler p (stop (pw p)))) = None"
    using o by (simp add: run_sampler_def deliver_def handleHighlight_def)
  ultimately show ?thesis using s by simp
qed

theorem press_stop_clears_highlight_witness:
  "\<exists>p p'. page_reach (\<lambda>s. s) (\<lambda>_. True) p \<and> playing (smp (pw p)) \<and> onPlayPressed p = Some (Normal p') \<and>
     hl (pwin p') = None"
proof -
  have h1: "page_reach (\<lambda>s. s) (\<lambda>_. True) (init_page (\<lambda>s. s) '''' 0 ''Drum Sampler'')"
    by (rule page_reach.start)
  have h2: "has_sampler (pwin (init_page (\<lambda>s. s) '''' 0 ''Drum Sampler''))"
    by (simp add: init_page_def init_win_def updateTitle_def Let_def)
  have cb: "cur_beat (pw (init_page (\<lambda>s. s) '''' 0 ''Drum Sampler'')) = DEMO_BEAT"
    by (simp add: init_page_def init_world_def cur_beat_def Sampler_def DEMO_REF_def)
  obtain w' where w': "toggle (init_world '''' 0) = Some (Normal w')" "playing (smp w')"
    using toggle_init by blast
  let ?p1 = "run_sampler (init_page (\<lambda>s. s) '''' 0 ''Drum Sampler'') w'"
  have st: "page_step (\<lambda>s. s) PPlay (init_page (\<lambda>s. s) '''' 0 ''Drum Sampler'') = Some ?p1"
    using h2 w'(1) by (simp add: onPlayPressed_def init_page_def)
  have r: "page_reach (\<lambda>s. s) (\<lambda>_. True) ?p1" by (rule page_reach.event [OF h1 _ st]) simp
  have hs: "has_sampler (pwin ?p1)" "playing (smp (pw ?p1))" using h2 w'(2) by simp_all
  show ?thesis using press_stop_clears_highlight [OF r hs] r hs(2) by blast
qed

text \<open>
  C36: opening a document with fewer than six instruments replaces the beat, then
  \<open>doDraw\<close> throws on the first missing row: the rows before it are redrawn from the
  new document, the rest of the grid still shows the old one, and the title still
  names the previous file.
\<close>

theorem malformed_open_half_drawn:
  assumes "page_reach fname ok p" "has_sampler (pwin p)" "length (instruments b) < INSTRUMENTS"
  shows "\<exists>p'. doOpen fname f (LoadText (Some b)) p = Threw (TypeError ''Cannot read property pattern of undefined'') p' \<and>
    cur_beat (pw p') = b \<and> \<not> playing (smp (pw p')) \<and> shown (pwin p') = shown (pwin p) \<and>
    (\<forall>k < INSTRUMENTS * TRACKS. buttons (pwin p') ! k =
       (if k < length (instruments b) * TRACKS then cell b (k div TRACKS) (k mod TRACKS) else buttons (pwin p) ! k))"
proof -
  let ?n = "length (instruments b)"
  have len: "length (buttons (pwin p)) = INSTRUMENTS * TRACKS" by (rule page_buttons [OF assms(1,2)])
  let ?w1 = "(stop (pw p))\<lparr>heap := heap (pw p) @ [b], smp := (smp (stop (pw p)))\<lparr>beat := length (heap (pw p))\<rparr>\<rparr>"
  let ?p1 = "run_sampler p ?w1"
  have cur: "cur_beat ?w1 = b" by (simp add: cur_beat_def)
  have np: "\<not> playing (smp ?w1)"
    using stop_inv [OF reach_inv [OF page_world [OF assms(1)]]] by simp
  have "[0..<INSTRUMENTS] = [0..<?n] @ [?n..<INSTRUMENTS]"
    using upt_add_eq_append [of 0 ?n "INSTRUMENTS - ?n"] assms(3) by simp
  then have split: "[0..<INSTRUMENTS] = [0..<?n] @ ?n # [Suc ?n..<INSTRUMENTS]"
    using assms(3) by (simp add: upt_conv_Cons)
  have le: "?n * TRACKS \<le> length (buttons (pwin p))"
    using assms(3) len by simp
  obtain bs' where d: "draw_rows b ([0..<?n] @ ?n # [Suc ?n..<INSTRUMENTS]) (buttons (pwin p)) 0 =
      draw_rows b (?n # [Suc ?n..<INSTRUMENTS]) bs' (?n * TRACKS)" "length bs' = length (buttons (pwin p))"
    "\<forall>k < length (buttons (pwin p)). bs' ! k = (if k < ?n * TRACKS
       then js_get (pattern (instruments b ! ([0..<?n] ! (k div TRACKS)))) (k mod TRACKS) else buttons (pwin p) ! k)"
    using draw_rows_prefix [of "[0..<?n]" b "buttons (pwin p)" "?n # [Suc ?n..<INSTRUMENTS]"] le by auto
  have thr: "draw_rows b [0..<INSTRUMENTS] (buttons (pwin p)) 0 =
      Threw (TypeError ''Cannot read property pattern of undefined'') (bs', ?n * TRACKS)"
    using d(1) by (simp add: split js_get_def)
  have "doOpen fname f (LoadText (Some b)) p =
      Threw (TypeError ''Cannot read property pattern of undefined'') (?p1\<lparr>pwin := (pwin ?p1)\<lparr>buttons := bs'\<rparr>\<rparr>)"
    using assms(2) thr cur by (simp add: doOpen_def load_text_Some doDraw_def)
  moreover have "\<forall>k < INSTRUMENTS * TRACKS. bs' ! k =
       (if k < ?n * TRACKS then cell b (k div TRACKS) (k mod TRACKS) else buttons (pwin p) ! k)"
  proof (intro allI impI)
    fix k assume k: "k < INSTRUMENTS * TRACKS"
    show "bs' ! k = (if k < ?n * TRACKS then cell b (k div TRACKS) (k mod TRACKS) else buttons (pwin p) ! k)"
    proof (cases "k < ?n * TRACKS")
      case True
      then have "k div TRACKS < ?n" by (simp add: less_mult_imp_div_less)
      then show ?thesis using True d(3) k len by (simp add: cell_def js_get_def)
    next
      case False
      then show ?thesis using d(3) k len by simp
    qed
  qed
  ultimately show ?thesis using cur np by (simp add: run_sampler_def)
qed

theorem malformed_open_half_drawn_witness:
  "\<exists>p'. doOpen (\<lambda>s. s) (Some ''bad.odbeat'')
      (LoadText (Some \<lparr>beat_kit = None, tempo = 120, effect = None, effectMix = 0, swingFactor = 0,
                       instruments = [\<lparr>pitch = 0.5, pattern = [2]\<rparr>]\<rparr>)) (init_page (\<lambda>s. s) '''' 0 ''Drum Sampler'') =
    Threw (TypeError ''Cannot read property pattern of undefined'') p' \<and> buttons (pwin p') ! 0 = Some 2"
proof -
  have h1: "page_reach (\<lambda>s. s) (\<lambda>_. True) (init_page (\<lambda>s. s) '''' 0 ''Drum Sampler'')"
    by (rule page_reach.start)
  have h2: "has_sampler (pwin (init_page (\<lambda>s. s) '''' 0 ''Drum Sampler''))"
    by (simp add: init_page_def init_win_def updateTitle_def Let_def)
  have cb: "cur_beat (pw (init_page (\<lambda>s. s) '''' 0 ''Drum Sampler'')) = DEMO_BEAT"
    by (simp add: init_page_def init_world_def cur_beat_def Sampler_def DEMO_REF_def)
  have h3: "length (instruments \<lparr>beat_kit = None, tempo = 120, effect = None, effectMix = 0, swingFactor = 0,
                       instruments = [\<lparr>pitch = 0.5, pattern = [2::nat]\<rparr>]\<rparr>) < INSTRUMENTS"
    by (simp add: INSTRUMENTS_def)
  show ?thesis using malformed_open_half_drawn [OF h1 h2 h3, of "Some ''bad.odbeat''"]
    by (fastforce simp: cell_def js_get_def globals_defs)
qed

text \<open>
  C37: opening a file that is not JSON throws \<open>SyntaxError\<close> after \<open>stop\<close>: the
  grid, the title and the beat are unchanged, and the transport is stopped with
  nothing pending.
\<close>

theorem open_syntax_error_keeps_window:
  assumes "page_reach fname ok p" "has_sampler (pwin p)"
  shows "\<exists>p'. doOpen fname f (LoadText None) p = Threw SyntaxError p' \<and> cur_beat (pw p') = cur_beat (pw p) \<and>
    buttons (pwin p') = buttons (pwin p) \<and> shown (pwin p') = shown (pwin p) \<and>
    \<not> playing (smp (pw p')) \<and> timers (pw p') = []"
proof -
  have s: "\<not> playing (smp (stop (pw p)))" "timers (stop (pw p)) = []"
    using stop_inv [OF reach_inv [OF page_world [OF assms(1)]]] by auto
  have "doOpen fname f (LoadText None) p = Threw SyntaxError (run_sampler p (stop (pw p)))"
    using assms(2) by (simp add: doOpen_def load_def Let_def)
  moreover have "cur_beat (stop (pw p)) = cur_beat (pw p)" by (simp add: cur_beat_def)
  ultimately show ?thesis using s by simp
qed

theorem open_syntax_error_keeps_window_witness:
  "\<exists>p'. doOpen (\<lambda>s. s) (Some ''x'') (LoadText None) (init_page (\<lambda>s. s) '''' 0 ''Drum Sampler'') =
     Threw SyntaxError p' \<and> \<not> playing (smp (pw p'))"
proof -
  have h1: "page_reach (\<lambda>s. s) (\<lambda>_. True) (init_page (\<lambda>s. s) '''' 0 ''Drum Sampler'')"
    by (rule page_reach.start)
  have h2: "has_sampler (pwin (init_page (\<lambda>s. s) '''' 0 ''Drum Sampler''))"
    by (simp add: init_page_def init_win_def updateTitle_def Let_def)
  have cb: "cur_beat (pw (init_page (\<lambda>s. s) '''' 0 ''Drum Sampler'')) = DEMO_BEAT"
    by (simp add: init_page_def init_world_def cur_beat_def Sampler_def DEMO_REF_def)
  show ?thesis using open_syntax_error_keeps_window [OF h1 h2, of "Some ''x''"] by blast
qed

section \<open>Refinement of the specification\<close>

text \<open>
  C38: the host event loop refines the transport state machine of the
  specification (STOPPED/PLAYING; toggle switches, load and reset stop, timers,
  edits and the kit leave the state): for documents with six instruments, every
  run of events from a reachable world that returns ends in the state the abstract
  machine reaches on the same events.
\<close>

theorem runs_refine_spec:
  assumes "reach six w" "\<forall>e \<in> set es. event_ok six e" "steps es w = Some w'"
  shows "abs_t w' = fold spec_step es (abs_t w)"
  using assms
proof (induction es arbitrary: w)
  case Nil
  then show ?case by simp
next
  case (Cons e es)
  obtain w1 where w1: "step e w = Some w1" "steps es w1 = Some w'"
    using Cons.prems(3) by (auto elim: steps_ConsE split: option.splits)
  have ok: "event_ok six e" using Cons.prems(2) by simp
  have "reach six w1" by (rule reach.event [OF Cons.prems(1) ok w1(1)])
  then have "abs_t w' = fold spec_step es (abs_t w1)" using Cons.IH Cons.prems(2) w1(2) by simp
  moreover have "abs_t w1 = spec_step e (abs_t w)" by (rule step_refines [OF Cons.prems(1) ok w1(1)])
  ultimately show ?case by simp
qed

theorem runs_refine_spec_witness:
  "\<exists>w'. steps [EvToggle, EvSetNote 0 0 1] (init_world '''' 0) = Some w' \<and> abs_t w' = PLAYING"
proof -
  obtain w1 where w1: "toggle (init_world '''' 0) = Some (Normal w1)" "playing (smp w1)"
    using toggle_init by blast
  have h1: "reach six (init_world '''' 0)" by (rule reach.start)
  have h2: "\<forall>e \<in> set [EvToggle, EvSetNote 0 0 1]. event_ok six e" by simp
  have h3: "steps [EvToggle, EvSetNote 0 0 1] (init_world '''' 0) = Some (out_value (setNote 0 0 1 w1))"
    using w1(1) by simp
  have "abs_t (init_world '''' 0) = STOPPED" by (simp add: abs_t_def init_world_def Sampler_def)
  then show ?thesis using runs_refine_spec [OF h1 h2 h3] h3 by auto
qed

text \<open>
  C39: \<open>advanceNote\<close> iterated equals the closed-form schedule of the
  specification: after \<open>n\<close> steps from step index \<open>i\<close> the cursor has moved
  \<open>(n div 2) * 30 / tempo\<close> seconds, plus, for odd \<open>n\<close>, one step of
  \<open>(0.25 \<plusminus> MAX_SWING * swing) * 60 / tempo\<close>, longer when \<open>i\<close> is even.
\<close>

theorem cursor_closed_form:
  assumes "rhythmIndex s < TRACKS"
  shows "noteTime ((advanceNote b ^^ n) s) = noteTime s + schedule b (rhythmIndex s) n"
proof (cases "odd n")
  case False
  then obtain k where n: "n = 2 * k" by (auto elim: evenE)
  show ?thesis using advanceNote_pow_even [OF assms, where b = b and n = k] by (simp add: n schedule_def)
next
  case True
  then obtain k where n: "n = Suc (2 * k)" by (auto elim: oddE)
  let ?s = "(advanceNote b ^^ (2 * k)) s"
  have i: "rhythmIndex ?s = (rhythmIndex s + 2 * k) mod TRACKS" by (rule advanceNote_pow_index [OF assms])
  have b: "rhythmIndex ?s < TRACKS" by (rule advanceNote_pow_index_bound [OF assms])
  have par: "even (rhythmIndex ?s) \<longleftrightarrow> even (rhythmIndex s)"
    using i dvd_mod_iff [of 2 16 "rhythmIndex s + 2 * k"] by (simp add: TRACKS_def)
  have o: "odd (rhythmIndex (advanceNote b ?s)) \<longleftrightarrow> even (rhythmIndex s)"
    using advanceNote_parity [OF b, where b = b] par by simp
  have "noteTime (advanceNote b ?s) = noteTime ?s + swing_step b (rhythmIndex s)"
  proof (cases "even (rhythmIndex s)")
    case True
    with o have "rhythmIndex (advanceNote b ?s) mod 2 \<noteq> 0" by presburger
    with True show ?thesis by (simp add: advanceNote_noteTime swing_step_def)
  next
    case False
    with o have "\<not> rhythmIndex (advanceNote b ?s) mod 2 \<noteq> 0" by presburger
    with False show ?thesis by (simp add: advanceNote_noteTime swing_step_def)
  qed
  then show ?thesis using advanceNote_pow_even [OF assms, where b = b and n = k] by (simp add: n schedule_def)
qed

theorem cursor_closed_form_witness:
  "rhythmIndex (Sampler '''') < TRACKS \<and>
   noteTime ((advanceNote (DEMO_BEAT\<lparr>swingFactor := 1\<rparr>) ^^ 3) (Sampler '''')) = 0.25 + 0.33 * 0.5"
proof -
  have h: "rhythmIndex (Sampler '''') < TRACKS" by (simp add: Sampler_def TRACKS_def)
  show ?thesis
    using h cursor_closed_form [OF h, where b = "DEMO_BEAT\<lparr>swingFactor := 1\<rparr>" and n = 3]
    by (simp add: schedule_def swing_step_def Sampler_def DEMO_BEAT_def MAX_SWING_def)
qed

section \<open>The Broadway proxy\<close>

text \<open>
  C40: the Broadway proxy finds windows by surface id: in every state reachable
  from an empty window manager, where the server never creates a surface whose
  window is still open, the surface ids of the open proxy windows are distinct,
  the window found for surface \<open>sid\<close> by the name \<open>'BroadwayWindow' + sid\<close> is the
  window created for \<open>sid\<close>, and \<open>onFlushSurface(sid)\<close> answers that window's own
  canvas.
\<close>

theorem surface_dispatch:
  assumes "host_ok H" "bw_reach H s" "wm s = Some ws"
  shows "distinct (map broadwayId ws) \<and> on_window s sid = find (\<lambda>v. broadwayId v = sid) ws \<and>
         (\<forall>c. gtk_callback H (FlushSurface sid) (wm s) = Normal (wm s, Some c) \<longrightarrow> cowner c = sid)"
proof -
  have inv: "wm_inv ws" using bw_reach_inv [OF assms(1,2)] assms(3) by (simp add: bw_inv_def)
  have look: "getWindow ws (surface_name sid) = find (\<lambda>v. broadwayId v = sid) ws"
    by (rule getWindow_by_id [OF inv])
  have flush: "cowner c = sid" if fl: "gtk_callback H (FlushSurface sid) (wm s) = Normal (wm s, Some c)" for c
  proof -
    obtain v where v: "getWindow ws (surface_name sid) = Some v" "c = bcanvas v"
      using fl assms(3) by (cases "getWindow ws (surface_name sid)") auto
    then have "v \<in> set ws" "wname v = surface_name sid" using getWindow_Some by auto
    then show ?thesis using inv v(2) by (auto simp: wm_inv_def)
  qed
  show ?thesis
  proof (intro conjI allI impI)
    show "distinct (map broadwayId ws)" using inv by (simp add: wm_inv_def)
    show "on_window s sid = find (\<lambda>v. broadwayId v = sid) ws" using look assms(3) by (simp add: on_window_def)
  qed (rule flush)
qed

theorem surface_dispatch_witness:
  "on_window \<lparr>wm = Some [bw_init (BroadwayWindow 3 0 0 640 480), bw_init (BroadwayWindow 13 0 0 640 480)],
              cur = None, sent = []\<rparr> 13 = Some (bw_init (BroadwayWindow 13 0 0 640 480))"
proof -
  let ?w3 = "bw_init (BroadwayWindow 3 0 0 640 480)" and ?w13 = "bw_init (BroadwayWindow 13 0 0 640 480)"
  let ?s0 = "\<lparr>wm = Some [], cur = None, sent = []\<rparr> :: bstate"
  let ?s1 = "\<lparr>wm = Some [?w3], cur = None, sent = []\<rparr> :: bstate"
  let ?s2 = "\<lparr>wm = Some [?w3, ?w13], cur = None, sent = []\<rparr> :: bstate"
  have ok: "host_ok std_host" by (simp add: host_ok_def std_host_def keeps_def wkey_def)
  have r0: "bw_reach std_host ?s0" by (rule bw_reach.start)
  have r1: "bw_reach std_host ?s1"
    using bw_reach.event [OF r0, of "Gtk (CreateSurface 3 0 0 640 480)" "Normal ?s1"]
    by (simp add: on_window_def getWindow_def Let_def)
  have r2: "bw_reach std_host ?s2"
    using bw_reach.event [OF r1, of "Gtk (CreateSurface 13 0 0 640 480)" "Normal ?s2"]
    by (simp add: on_window_def getWindow_def Let_def)
  have w: "wm ?s2 = Some [?w3, ?w13]" by simp
  have "on_window ?s2 13 = find (\<lambda>v. broadwayId v = 13) [?w3, ?w13]"
    using surface_dispatch [OF ok r2 w, of 13] by (elim conjE)
  also have "\<dots> = Some ?w13" by (simp only: find.simps new_window_simps) simp
  finally show ?thesis .
qed

section \<open>The application\<close>

text \<open>
  C5: closing the main window ends the sequencer: in every reachable state of the
  application, after the window's \<open>destroy\<close> and the \<open>destroyWindow\<close> message, the
  application is destroyed, the main window has no sampler, and its sampler world
  plays nothing and has no \<open>setTimeout\<close> callback pending, so no tick runs after
  the application is gone.
\<close>

theorem close_main_quiesces:
  assumes "app_reach fname ok a"
  shows "app_destroyed (close_main a) \<and>
    (\<forall>p. mainWindow (close_main a) = Some p \<longrightarrow>
       \<not> has_sampler (pwin p) \<and> timers (pw p) = [] \<and> \<not> playing (smp (pw p)))"
proof -
  have "app_reach fname ok (close_main a)" using app_reach.event [OF assms, of ACloseMain] by simp
  then have "app_inv fname ok (close_main a)" by (rule app_reach_inv)
  then show ?thesis using page_quiet by (auto simp: app_inv_def split: option.splits)
qed

theorem close_main_quiesces_witness:
  "\<exists>a. app_reach (\<lambda>s. s) (\<lambda>_. True) a \<and> (\<exists>p. mainWindow a = Some p \<and> playing (smp (pw p))) \<and>
     app_destroyed (close_main a) \<and> timers (pw (the (mainWindow (close_main a)))) = []"
proof -
  let ?A = "\<lparr>mainWindow = None, dialog_mime = ''osjs/dbeat'', dialog_mimes = [],
             dialog_default = ''New Beat.odbeat'', app_destroyed = False\<rparr>"
  let ?p0 = "init_page (\<lambda>s. s) '''' 0 ''Drum Sampler''"
  let ?a0 = "app_init (\<lambda>s. s) '''' 0 ''Drum Sampler'' ?A"
  have c: "ApplicationDrumSampler True [] = Inr ?A" by (simp add: ApplicationDrumSampler_def)
  have r0: "app_reach (\<lambda>s. s) (\<lambda>_. True) ?a0" by (rule app_reach.start [OF c])
  obtain w' where w': "toggle (init_world '''' 0) = Some (Normal w')" "playing (smp w')"
    using toggle_init by blast
  have h2: "has_sampler (pwin ?p0)" by (simp add: init_page_def init_win_def updateTitle_def Let_def)
  let ?p1 = "run_sampler ?p0 w'"
  have st: "page_step (\<lambda>s. s) PPlay ?p0 = Some ?p1"
    using h2 w'(1) by (simp add: onPlayPressed_def init_page_def)
  let ?a1 = "?a0\<lparr>mainWindow := Some ?p1\<rparr>"
  have as: "app_step (\<lambda>s. s) (AWin PPlay) ?a0 = Some ?a1" using st by (simp add: app_init_def)
  have r1: "app_reach (\<lambda>s. s) (\<lambda>_. True) ?a1" by (rule app_reach.event [OF r0 _ as]) simp
  have pl: "playing (smp (pw ?p1))" using w'(2) by simp
  have "app_destroyed (close_main ?a1) \<and> timers (pw (the (mainWindow (close_main ?a1)))) = []"
    using close_main_quiesces [OF r1] by simp
  then show ?thesis using r1 pl by auto
qed

end
